theory Spec2Isabelle
  imports Complex_Main "HOL-Library.Product_Lexorder"
begin

section \<open>Python strings\<close>

text \<open>
  A Python \<open>str\<close> is modelled as a \<open>string\<close>, one \<open>char\<close> per code point (the model
  covers code points below 256). The helpers below are the \<open>str\<close> methods the engine calls.
\<close>

text \<open>\<open>s.startswith(sub)\<close>\<close>

fun startswith :: "string \<Rightarrow> string \<Rightarrow> bool" where
  "startswith s [] = True"
| "startswith [] (c # sub) = False"
| "startswith (d # s) (c # sub) = (d = c \<and> startswith s sub)"

text \<open>\<open>sub in s\<close>\<close>

fun py_in :: "string \<Rightarrow> string \<Rightarrow> bool" where
  "py_in sub [] = (sub = [])"
| "py_in sub (d # s) = (startswith (d # s) sub \<or> py_in sub s)"

text \<open>
  \<open>s.lower()\<close>: below code point 256 the upper-case letters are A to Z and the
  Latin-1 letters 192 to 222 except the multiplication sign 215; each has its lower case
  32 code points above.
\<close>

definition lower_char :: "char \<Rightarrow> char" where
  "lower_char c =
     (let n = (of_char c :: nat)
      in if (65 \<le> n \<and> n \<le> 90) \<or> (192 \<le> n \<and> n \<le> 222 \<and> n \<noteq> 215)
         then char_of (n + 32) else c)"

definition lower :: "string \<Rightarrow> string" where
  "lower s = map lower_char s"

text \<open>The characters \<open>str.isspace\<close> accepts, below code point 256.\<close>

definition isspace :: "char \<Rightarrow> bool" where
  "isspace c = ((of_char c :: nat) \<in> {9, 10, 11, 12, 13, 28, 29, 30, 31, 32, 133, 160})"

text \<open>\<open>s.strip()\<close>\<close>

definition strip :: "string \<Rightarrow> string" where
  "strip s = rev (dropWhile isspace (rev (dropWhile isspace s)))"

text \<open>\<open>s.split(c)\<close> for a one-character separator: never an empty list.\<close>

fun split_on :: "char \<Rightarrow> string \<Rightarrow> string list" where
  "split_on c [] = [[]]"
| "split_on c (x # xs) =
     (if x = c then [] # split_on c xs
      else (case split_on c xs of
              [] \<Rightarrow> [[x]]
            | p # ps \<Rightarrow> (x # p) # ps))"

text \<open>\<open>s.split()\<close>: the maximal runs of non-space characters.\<close>

fun split_ws_acc :: "string \<Rightarrow> string \<Rightarrow> string list" where
  "split_ws_acc cur [] = (if cur = [] then [] else [rev cur])"
| "split_ws_acc cur (x # xs) =
     (if isspace x then (if cur = [] then split_ws_acc [] xs else rev cur # split_ws_acc [] xs)
      else split_ws_acc (x # cur) xs)"

definition split_ws :: "string \<Rightarrow> string list" where
  "split_ws s = split_ws_acc [] s"

text \<open>\<open>sep.join(parts)\<close>\<close>

fun join :: "string \<Rightarrow> string list \<Rightarrow> string" where
  "join sep [] = []"
| "join sep [p] = p"
| "join sep (p # q # ps) = p @ sep @ join sep (q # ps)"

text \<open>\<open>str(n)\<close> for an integer.\<close>

definition digit_char :: "nat \<Rightarrow> char" where
  "digit_char d = (''0123456789'' ! (d mod 10))"

fun str_nat :: "nat \<Rightarrow> string" where
  "str_nat n = (if n < 10 then [digit_char n] else str_nat (n div 10) @ [digit_char (n mod 10)])"

declare str_nat.simps [simp del]

definition str_int :: "int \<Rightarrow> string" where
  "str_int i = (if i < 0 then CHR ''-'' # str_nat (nat (- i)) else str_nat (nat i))"

section \<open>Data model (models.py)\<close>

text \<open>An exception is modelled by its message, \<open>str(e)\<close>.\<close>

datatype error = Exception string

fun error_str :: "error \<Rightarrow> string" where
  "error_str (Exception m) = m"

text \<open>\<open>class Article\<close>. A \<open>datetime\<close> is a timestamp.\<close>

record article =
  title :: string
  content :: string
  author :: "string option"
  source :: string
  url :: string
  category :: "string option"
  published_date :: "nat option"
  extracted_at :: nat
  summary :: "string option"
  article_keywords :: "string list"
  is_duplicate :: bool
  duplicate_group_id :: "string option"

text \<open>
  \<open>class Highlight\<close>. The scores are sums of \<open>1.0\<close> and \<open>0.5\<close>, which floating point
  represents exactly; they are modelled as rationals.
\<close>

record highlight =
  hl_title :: string
  hl_summary :: string
  hl_category :: string
  hl_sources :: "string list"
  hl_authors :: "string list"
  hl_frequency :: nat
  hl_priority_score :: rat
  hl_keywords :: "string list"
  hl_urls :: "string list"
  hl_published_dates :: "nat list"

section \<open>Configuration (config.py)\<close>

definition PRIORITY_KEYWORDS :: "string list" where
  "PRIORITY_KEYWORDS =
     [''breaking news'', ''breaking'', ''urgent'', ''exclusive'', ''alert'', ''update'',
      ''developing'']"

definition SIMILARITY_THRESHOLD :: rat where
  "SIMILARITY_THRESHOLD = 85 / 100"

section \<open>Summarization and the quota flag (ai_processor.py)\<close>

text \<open>
  \<open>_extractive_summary\<close>: the first sentences longer than 20 characters, else the first
  200 characters; capped at 300 characters.
\<close>

definition extractive_summary :: "article \<Rightarrow> string" where
  "extractive_summary a =
     (let sentences = filter (\<lambda>s. length s > 20) (map strip (split_on CHR ''.'' (content a)));
          summary0 =
            (if length sentences \<ge> 3 then join ''. '' (take 3 sentences) @ ''.''
             else if length sentences \<ge> 2 then join ''. '' (take 2 sentences) @ ''.''
             else if length sentences \<ge> 1 then (case sentences of s # _ \<Rightarrow> s @ ''.'' | [] \<Rightarrow> [])
             else (let s = take 200 (content a)
                   in if length (content a) > 200 then s @ ''...'' else s))
      in if length summary0 > 300 then take 300 summary0 @ ''...'' else summary0)"

text \<open>
  The process state: the module-level flag \<open>_openai_quota_exceeded\<close> of ai_processor.py,
  and the number of requests sent to the generation provider so far (a counter the model
  adds so that a skipped provider call can be observed).
\<close>

record process_state =
  openai_quota_exceeded :: bool
  provider_calls :: nat

text \<open>
  The generation provider is external. Its reply to the \<open>k\<close>-th request of the process,
  given the system and the user prompt, is the text of the first choice, or the exception
  raised anywhere in the \<open>try\<close> block around the call.
\<close>

type_synonym provider = "nat \<Rightarrow> string \<Rightarrow> string \<Rightarrow> error + string"

text \<open>
  The test both modules apply to \<open>str(e)\<close>:
  \<open>'429' in error_str or 'quota' in error_str.lower() or 'insufficient_quota' in error_str.lower()\<close>
\<close>

definition is_quota_error :: "error \<Rightarrow> bool" where
  "is_quota_error e =
     (py_in ''429'' (error_str e) \<or> py_in ''quota'' (lower (error_str e))
      \<or> py_in ''insufficient_quota'' (lower (error_str e)))"

definition summarize_system_prompt :: string where
  "summarize_system_prompt = ''You are a news summarizer. Create concise, informative summaries.''"

definition summarize_user_prompt :: "article \<Rightarrow> string" where
  "summarize_user_prompt a =
     ''Summarize this news article in 2-3 sentences:'' @ [CHR 0x0A, CHR 0x0A] @ ''Title: '' @ title a
     @ [CHR 0x0A, CHR 0x0A] @ ''Content: '' @ take 2000 (content a)"

text \<open>
  \<open>AIProcessor.summarize_article\<close>. \<open>client\<close> says whether \<open>openai_client\<close> was created
  (\<open>config.USE_OPENAI and config.OPENAI_API_KEY\<close>).
\<close>

definition summarize_article ::
  "bool \<Rightarrow> provider \<Rightarrow> process_state \<Rightarrow> article \<Rightarrow> string \<times> process_state" where
  "summarize_article client prov st a =
     (if \<not> client \<or> openai_quota_exceeded st then (extractive_summary a, st)
      else
        (let st1 = st\<lparr>provider_calls := Suc (provider_calls st)\<rparr>
         in case prov (provider_calls st) summarize_system_prompt (summarize_user_prompt a) of
              Inr text \<Rightarrow> (strip text, st1)
            | Inl e \<Rightarrow>
                if is_quota_error e then (extractive_summary a, st1\<lparr>openai_quota_exceeded := True\<rparr>)
                else (extractive_summary a, st1)))"

section \<open>Duplicate detection (ai_processor.py)\<close>

text \<open>The embedding model's batched \<open>encode\<close>, which may raise.\<close>

type_synonym 'v encoder = "string list \<Rightarrow> error + 'v list"

text \<open>The text embedded for an article: \<open>f"{article.title} {article.content[:500]}"\<close>\<close>

definition embedding_text :: "article \<Rightarrow> string" where
  "embedding_text a = title a @ '' '' @ take 500 (content a)"

text \<open>
  \<open>cosine_similarity(embeddings)\<close>: the matrix of the pairwise similarities. The
  similarity of two embeddings is external; floating-point values are modelled as
  rationals.
\<close>

definition similarity_matrix :: "('v \<Rightarrow> 'v \<Rightarrow> rat) \<Rightarrow> 'v list \<Rightarrow> rat list list" where
  "similarity_matrix cosine embeddings = map (\<lambda>u. map (cosine u) embeddings) embeddings"

text \<open>
  \<open>1 - similarity_matrix\<close>, then \<open>np.clip(distance_matrix, 0, None)\<close>, then
  \<open>np.fill_diagonal(distance_matrix, 0)\<close>.
\<close>

definition distance_matrix :: "rat list list \<Rightarrow> rat list list" where
  "distance_matrix sim =
     map (\<lambda>(i, row). map (\<lambda>(j, s). if i = j then 0 else max 0 (1 - s)) (enumerate 0 row))
         (enumerate 0 sim)"

text \<open>
  The clusterer: \<open>DBSCAN(eps=eps, min_samples=2, metric='precomputed').fit_predict\<close>,
  as a function of \<open>eps\<close>, \<open>min_samples\<close> and the distance matrix. It returns one label
  per row, \<open>-1\<close> for noise, or raises.
\<close>

type_synonym clusterer = "rat \<Rightarrow> nat \<Rightarrow> rat list list \<Rightarrow> error + int list"

text \<open>The \<open>try\<close> block of \<open>detect_duplicates\<close>: the labels, or the exception raised.\<close>

definition cluster_labels ::
  "'v encoder \<Rightarrow> ('v \<Rightarrow> 'v \<Rightarrow> rat) \<Rightarrow> clusterer \<Rightarrow> article list \<Rightarrow> error + int list" where
  "cluster_labels encode cosine fit_predict articles =
     (case encode (map embedding_text articles) of
        Inl e \<Rightarrow> Inl e
      | Inr embeddings \<Rightarrow>
          fit_predict (1 - SIMILARITY_THRESHOLD) 2
            (distance_matrix (similarity_matrix cosine embeddings)))"

text \<open>
  A dict of lists is an association list in insertion order, which is the order
  \<open>items()\<close> iterates in. One step of a grouping loop,
  \<open>if key not in groups: groups[key] = []\<close> then \<open>groups[key].append(x)\<close>: a new key is
  appended with \<open>x\<close> as its only member, a known key has \<open>x\<close> appended to its list.
\<close>

fun add_to_group :: "'k \<Rightarrow> 'a \<Rightarrow> ('k \<times> 'a list) list \<Rightarrow> ('k \<times> 'a list) list" where
  "add_to_group g a [] = [(g, [a])]"
| "add_to_group g a ((k, v) # rest) =
     (if k = g then (k, v @ [a]) # rest else (k, v) # add_to_group g a rest)"

text \<open>
  The dict \<open>cluster_groups\<close>, an association list in insertion order: each label other
  than \<open>-1\<close> with the indices that carry it, in ascending order.
\<close>

definition cluster_groups :: "int list \<Rightarrow> (int \<times> nat list) list" where
  "cluster_groups labels =
     foldl (\<lambda>groups (idx, label). if label \<noteq> - 1 then add_to_group label idx groups else groups)
       [] (enumerate 0 labels)"

text \<open>
  The body of the inner loop: the duplicate is flagged and gets the group id, the primary
  gets the group id. An index outside the list raises IndexError.
\<close>

definition mark_duplicate :: "string \<Rightarrow> nat \<Rightarrow> nat \<Rightarrow> article list \<Rightarrow> error + article list" where
  "mark_duplicate gid primary_idx dup_idx arts =
     (if dup_idx < length arts \<and> primary_idx < length arts then
        (let arts1 = arts[dup_idx := (arts ! dup_idx)\<lparr>is_duplicate := True,
                                                      duplicate_group_id := Some gid\<rparr>]
         in Inr (arts1[primary_idx := (arts1 ! primary_idx)\<lparr>duplicate_group_id := Some gid\<rparr>]))
      else Inl (Exception ''list index out of range''))"

text \<open>The inner loop, over \<open>indices[1:]\<close>.\<close>

fun mark_cluster :: "string \<Rightarrow> nat \<Rightarrow> nat list \<Rightarrow> article list \<Rightarrow> error + article list" where
  "mark_cluster gid primary_idx [] arts = Inr arts"
| "mark_cluster gid primary_idx (dup_idx # dups) arts =
     (case mark_duplicate gid primary_idx dup_idx arts of
        Inl e \<Rightarrow> Inl e
      | Inr arts' \<Rightarrow> mark_cluster gid primary_idx dups arts')"

text \<open>The outer loop, over \<open>cluster_groups.items()\<close>; \<open>indices[0]\<close> is the primary.\<close>

fun mark_clusters :: "(int \<times> nat list) list \<Rightarrow> article list \<Rightarrow> error + article list" where
  "mark_clusters [] arts = Inr arts"
| "mark_clusters ((cluster_id, indices) # rest) arts =
     (case indices of
        [] \<Rightarrow> Inl (Exception ''list index out of range'')
      | primary_idx # dups \<Rightarrow>
          (case mark_cluster (''group_'' @ str_int cluster_id) primary_idx dups arts of
             Inl e \<Rightarrow> Inl e
           | Inr arts' \<Rightarrow> mark_clusters rest arts'))"

text \<open>
  \<open>AIProcessor.detect_duplicates\<close>. The result is the returned list, or the exception the
  call raises. The records of a list are distinct objects.
\<close>

definition detect_duplicates ::
  "'v encoder \<Rightarrow> ('v \<Rightarrow> 'v \<Rightarrow> rat) \<Rightarrow> clusterer \<Rightarrow> article list \<Rightarrow> error + article list" where
  "detect_duplicates encode cosine fit_predict articles =
     (if length articles < 2 then Inr articles
      else
        (case cluster_labels encode cosine fit_predict articles of
           Inl e \<Rightarrow> Inr articles
         | Inr labels \<Rightarrow> mark_clusters (cluster_groups labels) articles))"

text \<open>
  Modelled from the spec: the density-based clustering (scikit-learn's DBSCAN is not part
  of the repository), with DBSCAN semantics on a precomputed distance matrix. The
  neighbourhood of a point holds the points within \<open>eps\<close> of it, itself included; a point
  with at least \<open>min_samples\<close> neighbours is a core point. The points are visited in index
  order; an unlabelled core point starts a cluster with the next label, which a
  depth-first search extends over the core points it reaches and their neighbours.
  Points never reached stay noise, \<open>-1\<close>. A matrix that is not square, or has a negative
  entry, is rejected.
\<close>

definition neighborhood :: "rat \<Rightarrow> rat list list \<Rightarrow> nat \<Rightarrow> nat list" where
  "neighborhood eps D i = filter (\<lambda>j. D ! i ! j \<le> eps) [0..<length D]"

definition is_core :: "rat \<Rightarrow> nat \<Rightarrow> rat list list \<Rightarrow> nat \<Rightarrow> bool" where
  "is_core eps min_samples D i = (min_samples \<le> length (neighborhood eps D i))"

text \<open>
  The neighbours a core point pushes on the stack: those still unlabelled, the last one
  on top. A point that is not a core point pushes nothing.
\<close>

definition push_unlabelled ::
  "(nat \<Rightarrow> nat list) \<Rightarrow> (nat \<Rightarrow> bool) \<Rightarrow> nat \<Rightarrow> nat list \<Rightarrow> int list \<Rightarrow> nat list" where
  "push_unlabelled nbrs core i stack labels =
     (if core i then rev (filter (\<lambda>v. v < length labels \<and> labels ! v = - 1) (nbrs i)) @ stack
      else stack)"

function expand_cluster ::
  "(nat \<Rightarrow> nat list) \<Rightarrow> (nat \<Rightarrow> bool) \<Rightarrow> nat \<Rightarrow> nat \<Rightarrow> nat list \<Rightarrow> int list \<Rightarrow> int list" where
  "expand_cluster nbrs core label_num i stack labels =
     (if i < length labels \<and> labels ! i = - 1 then
        (case push_unlabelled nbrs core i stack (labels[i := int label_num]) of
           [] \<Rightarrow> labels[i := int label_num]
         | v # rest \<Rightarrow> expand_cluster nbrs core label_num v rest (labels[i := int label_num]))
      else
        (case stack of
           [] \<Rightarrow> labels
         | v # rest \<Rightarrow> expand_cluster nbrs core label_num v rest labels))"
  by pat_completeness auto
termination
proof (relation "(\<lambda>(nbrs, core, label_num, i, stack, labels). length (filter (\<lambda>x. x = - 1) labels))
                   <*mlex*> measure (\<lambda>(nbrs, core, label_num, i, stack, labels). length stack)")
  have dec: "i < length labels \<Longrightarrow> labels ! i = - 1 \<Longrightarrow>
             length (filter (\<lambda>x. x = - 1) (labels[i := int c])) < length (filter (\<lambda>x. x = - 1) labels)"
    for i c and labels :: "int list"
  proof (induction labels arbitrary: i)
    case Nil
    then show ?case by simp
  next
    case (Cons x xs)
    then show ?case by (cases i) (auto simp: Suc_le_eq)
  qed
  show "wf ((\<lambda>(nbrs, core, label_num, i, stack, labels). length (filter (\<lambda>x. x = - 1) labels))
                   <*mlex*> measure (\<lambda>(nbrs :: nat \<Rightarrow> nat list, core :: nat \<Rightarrow> bool, label_num :: nat,
                                       i :: nat, stack :: nat list, labels :: int list). length stack))"
    by (simp add: wf_mlex)
  show "\<And>nbrs core label_num i stack labels x21 x22.
       i < length labels \<and> labels ! i = - 1 \<Longrightarrow>
       push_unlabelled nbrs core i stack (labels[i := int label_num]) = x21 # x22 \<Longrightarrow>
       ((nbrs, core, label_num, x21, x22, labels[i := int label_num]),
        nbrs, core, label_num, i, stack, labels)
       \<in> (\<lambda>(nbrs, core, label_num, i, stack, labels). length (filter (\<lambda>x. x = - 1) labels))
           <*mlex*> measure (\<lambda>(nbrs, core, label_num, i, stack, labels). length stack)"
    by (rule mlex_less) (simp add: dec)
  show "\<And>nbrs core label_num i stack labels x21 x22.
       \<not> (i < length labels \<and> labels ! i = - 1) \<Longrightarrow>
       stack = x21 # x22 \<Longrightarrow>
       ((nbrs, core, label_num, x21, x22, labels), nbrs, core, label_num, i, stack, labels)
       \<in> (\<lambda>(nbrs, core, label_num, i, stack, labels). length (filter (\<lambda>x. x = - 1) labels))
           <*mlex*> measure (\<lambda>(nbrs, core, label_num, i, stack, labels). length stack)"
    by (rule mlex_leq) simp_all
qed

declare expand_cluster.simps [simp del]

fun dbscan_loop ::
  "(nat \<Rightarrow> nat list) \<Rightarrow> (nat \<Rightarrow> bool) \<Rightarrow> nat list \<Rightarrow> nat \<Rightarrow> int list \<Rightarrow> int list" where
  "dbscan_loop nbrs core [] label_num labels = labels"
| "dbscan_loop nbrs core (i # rest) label_num labels =
     (if labels ! i \<noteq> - 1 \<or> \<not> core i then dbscan_loop nbrs core rest label_num labels
      else dbscan_loop nbrs core rest (Suc label_num)
             (expand_cluster nbrs core label_num i [] labels))"

definition DBSCAN_fit_predict :: clusterer where
  "DBSCAN_fit_predict eps min_samples D =
     (if \<exists>row \<in> set D. length row \<noteq> length D then Inl (Exception ''Precomputed matrix must be square'')
      else if \<exists>row \<in> set D. \<exists>d \<in> set row. d < 0
      then Inl (Exception ''Negative values in data passed to precomputed distance matrix'')
      else Inr (dbscan_loop (neighborhood eps D) (is_core eps min_samples D) [0..<length D] 0
                  (replicate (length D) (- 1))))"

section \<open>Highlight synthesis (ai_processor.py)\<close>

text \<open>\<open>group_id = article.duplicate_group_id or f"single_{article.url}"\<close>\<close>

definition group_key :: "article \<Rightarrow> string" where
  "group_key a =
     (case duplicate_group_id a of
        None \<Rightarrow> ''single_'' @ url a
      | Some g \<Rightarrow> if g = [] then ''single_'' @ url a else g)"

text \<open>The dict \<open>article_groups\<close>, filled by the grouping loop.\<close>

definition group_articles :: "article list \<Rightarrow> (string \<times> article list) list" where
  "group_articles arts = foldl (\<lambda>groups a. add_to_group (group_key a) a groups) [] arts"

text \<open>The text the priority keywords are searched in.\<close>

definition all_text :: "article list \<Rightarrow> string" where
  "all_text grp = lower (join '' '' (map (\<lambda>a. title a @ '' '' @ take 200 (content a)) grp))"

text \<open>The keyword loop: \<open>priority_score += 1.0\<close> for each keyword found.\<close>

definition keyword_score :: "string \<Rightarrow> rat" where
  "keyword_score txt = foldl (\<lambda>score k. if py_in k txt then score + 1 else score) 0 PRIORITY_KEYWORDS"

text \<open>
  The body of the loop over the groups. \<open>group_articles[0]\<close> raises IndexError on an
  empty group.
\<close>

definition make_highlight ::
  "bool \<Rightarrow> provider \<Rightarrow> string \<Rightarrow> process_state \<Rightarrow> article list
     \<Rightarrow> error + (highlight \<times> process_state)" where
  "make_highlight client prov cat st grp =
     (let frequency = length grp;
          priority_score = keyword_score (all_text grp) + of_nat frequency * (1 / 2)
      in case grp of
           [] \<Rightarrow> Inl (Exception ''list index out of range'')
         | primary_article # _ \<Rightarrow>
             (let (summ, st') =
                    (case summary primary_article of
                       None \<Rightarrow> summarize_article client prov st primary_article
                     | Some s \<Rightarrow>
                         if s = [] then summarize_article client prov st primary_article
                         else (s, st))
              in Inr (\<lparr>hl_title = title primary_article,
                        hl_summary = summ,
                        hl_category = cat,
                        hl_sources = map source grp,
                        hl_authors = concat (map (\<lambda>a. case author a of
                                                        None \<Rightarrow> []
                                                      | Some au \<Rightarrow> if au = [] then [] else [au]) grp),
                        hl_frequency = frequency,
                        hl_priority_score = priority_score,
                        hl_keywords = (if priority_score > 0 then PRIORITY_KEYWORDS else []),
                        hl_urls = map url grp,
                        hl_published_dates = concat (map (\<lambda>a. case published_date a of
                                                                None \<Rightarrow> []
                                                              | Some d \<Rightarrow> [d]) grp)\<rparr>, st')))"

fun build_highlights ::
  "bool \<Rightarrow> provider \<Rightarrow> string \<Rightarrow> (string \<times> article list) list \<Rightarrow> process_state
     \<Rightarrow> error + (highlight list \<times> process_state)" where
  "build_highlights client prov cat [] st = Inr ([], st)"
| "build_highlights client prov cat ((g, grp) # rest) st =
     (case make_highlight client prov cat st grp of
        Inl e \<Rightarrow> Inl e
      | Inr (h, st1) \<Rightarrow>
          (case build_highlights client prov cat rest st1 of
             Inl e \<Rightarrow> Inl e
           | Inr (hs, st2) \<Rightarrow> Inr (h # hs, st2)))"

text \<open>
  \<open>highlights.sort(key=lambda x: (x.priority_score, x.frequency), reverse=True)\<close>:
  Python reverses the list, sorts it stably in ascending order and reverses it again.
\<close>

definition highlight_key :: "highlight \<Rightarrow> rat \<times> nat" where
  "highlight_key h = (hl_priority_score h, hl_frequency h)"

definition sort_reverse :: "highlight list \<Rightarrow> highlight list" where
  "sort_reverse hs = rev (sort_key highlight_key (rev hs))"

text \<open>\<open>AIProcessor.generate_highlights\<close>\<close>

definition category_articles :: "article list \<Rightarrow> string \<Rightarrow> article list" where
  "category_articles articles cat =
     filter (\<lambda>a. category a = Some cat \<and> \<not> is_duplicate a) articles"

definition generate_highlights ::
  "bool \<Rightarrow> provider \<Rightarrow> process_state \<Rightarrow> article list \<Rightarrow> string
     \<Rightarrow> error + (highlight list \<times> process_state)" where
  "generate_highlights client prov st articles cat =
     (if category_articles articles cat = [] then Inr ([], st)
      else
        (case build_highlights client prov cat (group_articles (category_articles articles cat)) st of
           Inl e \<Rightarrow> Inl e
         | Inr (highlights, st') \<Rightarrow> Inr (sort_reverse highlights, st')))"

section \<open>The vector index (external) and the chatbot (rag_chatbot.py)\<close>

text \<open>
  What \<open>index_highlights\<close> stores as metadata. The source stores \<open>str()\<close> of the
  list-valued fields; the model keeps the lists themselves.
\<close>

record metadata =
  md_title :: string
  md_category :: string
  md_summary :: string
  md_sources :: "string list"
  md_frequency :: string
  md_urls :: "string list"

text \<open>One stored entry of the collection, and the collection in insertion order.\<close>

record 'v entry =
  entry_id :: string
  entry_document :: string
  entry_metadata :: metadata
  entry_embedding :: 'v

type_synonym 'v collection = "'v entry list"

text \<open>The dict \<open>collection.query\<close> returns: one list per query embedding, or nothing.\<close>

record query_results =
  documents :: "string list list option"
  metadatas :: "metadata list list option"

text \<open>
  The calls the chatbot makes on its chromadb collection. Each may raise:
  \<open>collection.delete(where={})\<close>, \<open>collection.add(documents, metadatas, ids, embeddings)\<close>
  and \<open>collection.query(query_embeddings=[v], n_results=k)\<close>.
\<close>

record 'v vector_index =
  vi_delete :: "'v collection \<Rightarrow> error + 'v collection"
  vi_add :: "'v collection \<Rightarrow> string list \<Rightarrow> metadata list \<Rightarrow> string list \<Rightarrow> 'v list
               \<Rightarrow> error + 'v collection"
  vi_query :: "'v collection \<Rightarrow> 'v \<Rightarrow> int \<Rightarrow> error + query_results"

text \<open>The document text of a highlight: the f-string of \<open>index_highlights\<close>.\<close>

definition indent :: string where
  "indent = CHR 0x0A # replicate 12 CHR '' ''"

definition doc_text :: "highlight \<Rightarrow> string" where
  "doc_text h =
     indent @ ''Title: '' @ hl_title h @
     indent @ ''Category: '' @ hl_category h @
     indent @ ''Summary: '' @ hl_summary h @
     indent @ ''Sources: '' @ join '', '' (hl_sources h) @
     indent @ ''Frequency: '' @ str_nat (hl_frequency h) @
     indent @ ''Keywords: '' @ join '', '' (hl_keywords h) @
     indent"

definition metadata_of :: "highlight \<Rightarrow> metadata" where
  "metadata_of h =
     \<lparr>md_title = hl_title h, md_category = hl_category h, md_summary = hl_summary h,
      md_sources = hl_sources h, md_frequency = str_nat (hl_frequency h), md_urls = hl_urls h\<rparr>"

definition highlight_ids :: "nat \<Rightarrow> string list" where
  "highlight_ids n = map (\<lambda>idx. ''highlight_'' @ str_nat idx) [0..<n]"

text \<open>
  \<open>RAGChatbot.index_highlights\<close>, as a function of the collection before the call. The
  result is the collection when the call returns, or the exception it raises. A failure
  of the delete is logged and the call goes on with the collection as it is.
\<close>

definition index_highlights ::
  "'v vector_index \<Rightarrow> 'v encoder \<Rightarrow> 'v collection \<Rightarrow> highlight list \<Rightarrow> error + 'v collection" where
  "index_highlights vi encode coll highlights =
     (if highlights = [] then Inr coll
      else
        (let coll1 = (case vi_delete vi coll of Inl e \<Rightarrow> coll | Inr c \<Rightarrow> c);
             docs = map doc_text highlights;
             metas = map metadata_of highlights;
             ids = highlight_ids (length highlights)
         in case encode docs of
              Inl e \<Rightarrow> Inl e
            | Inr embeddings \<Rightarrow> vi_add vi coll1 docs metas ids embeddings))"

definition insufficient_message :: string where
  "insufficient_message =
     ''I don't have enough information about recent news highlights to answer your question. Please try asking about sports, lifestyle, music, or finance news.''"

definition apology_message :: string where
  "apology_message =
     ''I encountered an error while processing your question. Please try again later.''"

definition fallback_prefix :: string where
  "fallback_prefix = ''Based on the news highlights:'' @ [CHR 0x0A, CHR 0x0A]"

text \<open>\<open>RAGChatbot._generate_fallback_response\<close>\<close>

definition generate_fallback_response :: "string list \<Rightarrow> string \<Rightarrow> string" where
  "generate_fallback_response context_docs user_message =
     (case context_docs of
        [] \<Rightarrow> insufficient_message
      | first_doc # _ \<Rightarrow>
          (let user_lower = lower user_message;
               long_words = filter (\<lambda>w. length w > 3) (split_ws user_lower);
               relevant_doc =
                 (case find (\<lambda>doc. list_ex (\<lambda>w. py_in w (lower doc)) long_words) context_docs of
                    Some doc \<Rightarrow> doc
                  | None \<Rightarrow> first_doc);
               lines = split_on (CHR 0x0A) relevant_doc;
               summ = concat (map (\<lambda>line. line @ [CHR 0x0A])
                               (filter (\<lambda>line. py_in ''Summary:'' line \<or> py_in ''Title:'' line) lines))
           in if summ \<noteq> [] then fallback_prefix @ take 400 summ @ ''...''
              else fallback_prefix @ take 400 relevant_doc @ ''...''))"

definition chat_system_prompt :: string where
  "chat_system_prompt =
     ''You are a helpful assistant that answers questions about news highlights. Use the provided context to answer questions accurately. If the context doesn't contain relevant information, say so.''"

definition chat_user_prompt :: "string \<Rightarrow> string \<Rightarrow> string" where
  "chat_user_prompt context user_message =
     ''Context from news highlights:'' @ [CHR 0x0A, CHR 0x0A] @ context @
     [CHR 0x0A, CHR 0x0A, CHR 0x0A] @ ''User question: '' @ user_message @ [CHR 0x0A, CHR 0x0A] @
     ''Please provide a helpful answer based on the context above.''"

text \<open>\<open>"\n\n".join(f"News Highlight {i+1}:\n{doc}" for i, doc in enumerate(context_docs))\<close>\<close>

definition build_context :: "string list \<Rightarrow> string" where
  "build_context context_docs =
     join [CHR 0x0A, CHR 0x0A]
       (map (\<lambda>(i, doc). ''News Highlight '' @ str_nat (i + 1) @ '':'' @ [CHR 0x0A] @ doc)
            (enumerate 0 context_docs))"

text \<open>\<open>results['documents'][0] if results['documents'] else []\<close>\<close>

definition first_documents :: "query_results \<Rightarrow> string list" where
  "first_documents results =
     (case documents results of
        None \<Rightarrow> []
      | Some [] \<Rightarrow> []
      | Some (d # _) \<Rightarrow> d)"

text \<open>
  The body of the outer \<open>try\<close> of \<open>RAGChatbot.query\<close>: \<open>Inl\<close> is an exception that
  reaches the outer handler. \<open>client\<close> says whether the module's own \<open>openai_client\<close> was
  created. The function does not mention \<open>_openai_quota_exceeded\<close>; the state is threaded
  through for the count of provider requests.
\<close>

definition query_body ::
  "bool \<Rightarrow> provider \<Rightarrow> 'v encoder \<Rightarrow> 'v vector_index \<Rightarrow> 'v collection \<Rightarrow> process_state
     \<Rightarrow> string \<Rightarrow> int \<Rightarrow> error + (string \<times> process_state)" where
  "query_body client prov encode vi coll st user_message top_k =
     (case encode [user_message] of
        Inl e \<Rightarrow> Inl e
      | Inr [] \<Rightarrow> Inl (Exception ''list index out of range'')
      | Inr (query_embedding # _) \<Rightarrow>
          (case vi_query vi coll query_embedding top_k of
             Inl e \<Rightarrow> Inl e
           | Inr results \<Rightarrow>
               (let context_docs = first_documents results
                in if context_docs = [] then Inr (insufficient_message, st)
                   else
                     (let context = build_context context_docs
                      in if client then
                           (let st1 = st\<lparr>provider_calls := Suc (provider_calls st)\<rparr>
                            in case prov (provider_calls st) chat_system_prompt
                                      (chat_user_prompt context user_message) of
                                 Inr text \<Rightarrow> Inr (strip text, st1)
                               | Inl e \<Rightarrow>
                                   if is_quota_error e
                                   then Inr (generate_fallback_response context_docs user_message, st1)
                                   else Inr (generate_fallback_response context_docs user_message, st1))
                         else Inr (generate_fallback_response context_docs user_message, st)))))"

text \<open>\<open>RAGChatbot.query\<close>: the outer handler turns any exception into the apology.\<close>

definition query ::
  "bool \<Rightarrow> provider \<Rightarrow> 'v encoder \<Rightarrow> 'v vector_index \<Rightarrow> 'v collection \<Rightarrow> process_state
     \<Rightarrow> string \<Rightarrow> int \<Rightarrow> string \<times> process_state" where
  "query client prov encode vi coll st user_message top_k =
     (case query_body client prov encode vi coll st user_message top_k of
        Inl e \<Rightarrow> (apology_message, st)
      | Inr r \<Rightarrow> r)"

section \<open>Notions used to state the properties\<close>

text \<open>The distinct elements of a list, in the order of their first occurrence.\<close>

fun first_seen :: "'a list \<Rightarrow> 'a list" where
  "first_seen [] = []"
| "first_seen (x # xs) = x # first_seen (filter (\<lambda>y. y \<noteq> x) xs)"

text \<open>What the loop body of \<open>generate_highlights\<close> stores in the highlight of a group.\<close>

definition highlight_of :: "string \<Rightarrow> article list \<Rightarrow> highlight \<Rightarrow> bool" where
  "highlight_of cat grp h \<longleftrightarrow>
     grp \<noteq> [] \<and> hl_frequency h = length grp \<and> hl_urls h = map url grp \<and>
     hl_sources h = map source grp \<and> hl_title h = title (hd grp) \<and> hl_category h = cat \<and>
     hl_priority_score h = keyword_score (all_text grp) + of_nat (length grp) * (1 / 2) \<and>
     hl_keywords h = (if hl_priority_score h > 0 then PRIORITY_KEYWORDS else [])"

text \<open>The two records of the end-to-end example, categorised as sports.\<close>

definition example_record_1 :: article where
  "example_record_1 =
     \<lparr>title = ''Team wins final'',
      content = ''The team won the final match yesterday. It was a great game. Fans celebrated.'',
      author = None, source = ''abc'', url = ''https://example.org/1'',
      category = Some ''sports'', published_date = None, extracted_at = 0, summary = None,
      article_keywords = [], is_duplicate = False, duplicate_group_id = None\<rparr>"

definition example_record_2 :: article where
  "example_record_2 =
     \<lparr>title = ''Local team wins championship'',
      content = ''The local team won the championship final. It was a great game. Fans celebrated all night.'',
      author = None, source = ''smh'', url = ''https://example.org/2'',
      category = Some ''sports'', published_date = None, extracted_at = 0, summary = None,
      article_keywords = [], is_duplicate = False, duplicate_group_id = None\<rparr>"

text \<open>A provider that is never reached, and the state of a fresh process.\<close>

definition no_provider :: provider where
  "no_provider k sys usr = Inl (Exception ''unreachable'')"

definition initial_state :: process_state where
  "initial_state = \<lparr>openai_quota_exceeded = False, provider_calls = 0\<rparr>"

text \<open>The highlight of the first example record alone, summarised without a client.\<close>

definition example_highlight_1 :: highlight where
  "example_highlight_1 =
     \<lparr>hl_title = ''Team wins final'',
      hl_summary = ''The team won the final match yesterday.'',
      hl_category = ''sports'', hl_sources = [''abc''], hl_authors = [], hl_frequency = 1,
      hl_priority_score = 1 / 2, hl_keywords = PRIORITY_KEYWORDS,
      hl_urls = [''https://example.org/1''], hl_published_dates = []\<rparr>"

definition example_highlight_2 :: highlight where
  "example_highlight_2 =
     \<lparr>hl_title = ''Local team wins championship'',
      hl_summary = ''The local team won the championship final. Fans celebrated all night.'',
      hl_category = ''sports'', hl_sources = [''smh''], hl_authors = [], hl_frequency = 1,
      hl_priority_score = 1 / 2, hl_keywords = PRIORITY_KEYWORDS,
      hl_urls = [''https://example.org/2''], hl_published_dates = []\<rparr>"

text \<open>A third record, with a priority keyword in its title, and its highlight.\<close>

definition example_record_3 :: article where
  "example_record_3 =
     \<lparr>title = ''Breaking: final replayed'',
      content = ''The final will be replayed next week.'',
      author = None, source = ''nine'', url = ''https://example.org/3'',
      category = Some ''sports'', published_date = None, extracted_at = 0, summary = None,
      article_keywords = [], is_duplicate = False, duplicate_group_id = None\<rparr>"

definition example_highlight_3 :: highlight where
  "example_highlight_3 =
     \<lparr>hl_title = ''Breaking: final replayed'',
      hl_summary = ''The final will be replayed next week.'',
      hl_category = ''sports'', hl_sources = [''nine''], hl_authors = [], hl_frequency = 1,
      hl_priority_score = 3 / 2, hl_keywords = PRIORITY_KEYWORDS,
      hl_urls = [''https://example.org/3''], hl_published_dates = []\<rparr>"

text \<open>
  The calls a process makes that can reach the generation provider, each with the client
  flag and the provider it meets, and the state after one call and after a list of them.
\<close>

datatype 'v call =
    Summarize bool provider article
  | Generate bool provider "article list" string
  | Query bool provider "'v encoder" "'v vector_index" "'v collection" string int



text \<open>
  Modelled from the spec: the VectorIndex capability (the chromadb collection is an
  external library, not part of the repository). \<open>clear\<close> empties the collection, \<open>add\<close>
  inserts one entry per id and, as the library does, skips an id that is already stored,
  which keeps the entry it has; \<open>query\<close> returns the \<open>k\<close> nearest entries, ranked
  ascending by distance.
\<close>

definition spec_add ::
  "'v collection \<Rightarrow> string list \<Rightarrow> metadata list \<Rightarrow> string list \<Rightarrow> 'v list \<Rightarrow> error + 'v collection" where
  "spec_add coll docs metas ids embeddings =
     (if length docs = length ids \<and> length metas = length ids \<and> length embeddings = length ids
      then Inr (foldl (\<lambda>c i. if ids ! i \<in> entry_id ` set c then c
                              else c @ [\<lparr>entry_id = ids ! i, entry_document = docs ! i,
                                         entry_metadata = metas ! i,
                                         entry_embedding = embeddings ! i\<rparr>])
                  coll [0..<length ids])
      else Inl (Exception ''inconsistent lengths''))"

definition spec_query ::
  "('v \<Rightarrow> 'v \<Rightarrow> rat) \<Rightarrow> 'v collection \<Rightarrow> 'v \<Rightarrow> int \<Rightarrow> error + query_results" where
  "spec_query distance coll v k =
     (if k \<le> 0 then Inl (Exception ''number of requested results must be positive'')
      else
        (let hits = take (nat k) (sort_key (\<lambda>e. distance v (entry_embedding e)) coll)
         in Inr \<lparr>documents = Some [map entry_document hits],
                 metadatas = Some [map entry_metadata hits]\<rparr>))"

definition spec_vector_index :: "('v \<Rightarrow> 'v \<Rightarrow> rat) \<Rightarrow> 'v vector_index" where
  "spec_vector_index distance =
     \<lparr>vi_delete = (\<lambda>coll. Inr []), vi_add = spec_add, vi_query = spec_query distance\<rparr>"

text \<open>
  The index as the library gives it to \<open>index_highlights\<close>: \<open>delete(where={})\<close> rejects
  the empty filter and raises, which the handler of \<open>index_highlights\<close> logs.
\<close>

definition failing_delete_index :: "('v \<Rightarrow> 'v \<Rightarrow> rat) \<Rightarrow> 'v vector_index" where
  "failing_delete_index distance =
     \<lparr>vi_delete = (\<lambda>coll. Inl (Exception ''Expected where to have exactly one operator'')),
      vi_add = spec_add, vi_query = spec_query distance\<rparr>"

text \<open>An embedding model with a single embedding, and the distance on it.\<close>

definition unit_encoder :: "unit encoder" where
  "unit_encoder texts = Inr (map (\<lambda>t. ()) texts)"

definition unit_dist :: "unit \<Rightarrow> unit \<Rightarrow> rat" where
  "unit_dist u v = 0"

definition failing_encoder :: "unit encoder" where
  "failing_encoder texts = Inl (Exception ''model not loaded'')"

text \<open>The collection after indexing the first example highlight.\<close>

definition example_collection :: "unit collection" where
  "example_collection =
     [\<lparr>entry_id = ''highlight_0'', entry_document = doc_text example_highlight_1,
       entry_metadata = metadata_of example_highlight_1, entry_embedding = ()\<rparr>]"

text \<open>A collection left by an earlier run of three highlights.\<close>

definition stale_collection :: "unit collection" where
  "stale_collection =
     map (\<lambda>i. \<lparr>entry_id = ''highlight_'' @ str_nat i, entry_document = doc_text example_highlight_2,
                entry_metadata = metadata_of example_highlight_2, entry_embedding = ()\<rparr>) [0, 1, 2]"

text \<open>
  Providers: one that answers the first request with a rate-limit error and every later
  one with a text, one that always reports the exhausted quota, and one that always fails
  for another reason.
\<close>

definition quota_then_answer :: provider where
  "quota_then_answer k sys usr =
     (if k = 0 then Inl (Exception ''Error code: 429 - insufficient_quota'')
      else Inr ''The team won the final.'')"

definition always_quota :: provider where
  "always_quota k sys usr = Inl (Exception ''You exceeded your current quota'')"

definition always_down :: provider where
  "always_down k sys usr = Inl (Exception ''Connection error.'')"

definition example_question :: string where
  "example_question = ''Who won the final?''"

text \<open>The state after one rate-limit error, and some later calls of the process.\<close>

definition degraded_state :: process_state where
  "degraded_state = \<lparr>openai_quota_exceeded = True, provider_calls = 1\<rparr>"


text \<open>The indices that carry a label, in ascending order: the members of a cluster.\<close>

definition cluster_members :: "int list \<Rightarrow> int \<Rightarrow> nat list" where
  "cluster_members labels l = filter (\<lambda>j. labels ! j = l) [0..<length labels]"

text \<open>The data-model invariant on a record: a duplicate carries a group id.\<close>

definition record_ok :: "article \<Rightarrow> bool" where
  "record_ok a \<longleftrightarrow> (is_duplicate a \<longrightarrow> duplicate_group_id a \<noteq> None)"

text \<open>
  Neighbourhoods over \<open>n\<close> points as the clustering needs them: within range, symmetric,
  and a point with a neighbour other than itself is a core point.
\<close>

definition neighbourly :: "(nat \<Rightarrow> nat list) \<Rightarrow> (nat \<Rightarrow> bool) \<Rightarrow> nat \<Rightarrow> bool" where
  "neighbourly nbrs core n \<longleftrightarrow>
     (\<forall>i < n. \<forall>v \<in> set (nbrs i). v < n) \<and>
     (\<forall>i < n. \<forall>j \<in> set (nbrs i). i \<in> set (nbrs j)) \<and>
     (\<forall>i < n. \<forall>j \<in> set (nbrs i). j \<noteq> i \<longrightarrow> core i)"

text \<open>
  The invariant of the depth-first search for the cluster \<open>c\<close>: every neighbour of a
  labelled core point carries the same label, or the point belongs to the cluster under
  construction and the neighbour is unlabelled and still pending.
\<close>

definition closed_labels ::
  "(nat \<Rightarrow> nat list) \<Rightarrow> (nat \<Rightarrow> bool) \<Rightarrow> nat \<Rightarrow> nat set \<Rightarrow> int list \<Rightarrow> bool" where
  "closed_labels nbrs core c pending labels \<longleftrightarrow>
     (\<forall>p < length labels. \<forall>q \<in> set (nbrs p).
        labels ! p \<noteq> - 1 \<and> core p \<longrightarrow>
          labels ! q = labels ! p \<or> (labels ! p = int c \<and> labels ! q = - 1 \<and> q \<in> pending))"

text \<open>A clusterer and an embedding model that fail.\<close>

definition failing_clusterer :: clusterer where
  "failing_clusterer eps min_samples D = Inl (Exception ''Unable to allocate array'')"

text \<open>An embedding model that embeds every text as itself, and a similarity of 0.9.\<close>

definition text_encoder :: "string encoder" where
  "text_encoder texts = Inr texts"

definition similar :: "string \<Rightarrow> string \<Rightarrow> rat" where
  "similar u v = 9 / 10"

text \<open>The two example records after duplicate detection has put them in one cluster.\<close>

definition example_clustered :: "article list" where
  "example_clustered =
     [example_record_1\<lparr>duplicate_group_id := Some ''group_0''\<rparr>,
      example_record_2\<lparr>is_duplicate := True, duplicate_group_id := Some ''group_0''\<rparr>]"

text \<open>
  A similarity of 0.9 between two texts that both mention the fans, or both do not, and
  of 0.1 otherwise.
\<close>

definition topic_similarity :: "string \<Rightarrow> string \<Rightarrow> rat" where
  "topic_similarity u v = (if py_in ''Fans'' u = py_in ''Fans'' v then 9 / 10 else 1 / 10)"

section \<open>Highlight synthesis: groups, scores and order\<close>

lemma keyword_fold_nonneg:
  "(0::rat) \<le> s \<Longrightarrow> 0 \<le> foldl (\<lambda>score k. if py_in k txt then score + 1 else score) s ks"
  by (induction ks arbitrary: s) auto

lemma keyword_score_nonneg: "0 \<le> keyword_score txt"
  unfolding keyword_score_def by (rule keyword_fold_nonneg) simp

lemma add_to_group_keys:
  "map fst (add_to_group g a gs) = (if g \<in> set (map fst gs) then map fst gs else map fst gs @ [g])"
  by (induction gs) force+

lemma add_to_group_nonempty:
  "\<forall>(k, v) \<in> set gs. v \<noteq> [] \<Longrightarrow> \<forall>(k, v) \<in> set (add_to_group g a gs). v \<noteq> []"
  by (induction gs) (auto split: if_splits)

lemma foldl_groups_nonempty:
  "\<forall>(k, v) \<in> set gs. v \<noteq> [] \<Longrightarrow>
   \<forall>(k, v) \<in> set (foldl (\<lambda>groups a. add_to_group (group_key a) a groups) gs arts). v \<noteq> []"
proof (induction arts arbitrary: gs)
  case Nil
  then show ?case by simp
next
  case (Cons a arts)
  show ?case
    unfolding foldl_Cons
    by (rule Cons.IH) (rule add_to_group_nonempty [OF Cons.prems])
qed

lemma group_articles_nonempty: "\<forall>(k, v) \<in> set (group_articles arts). v \<noteq> []"
  unfolding group_articles_def by (rule foldl_groups_nonempty) simp

lemma make_highlight_Inr:
  "grp \<noteq> [] \<Longrightarrow> \<exists>h st'. make_highlight client prov cat st grp = Inr (h, st')"
  by (cases grp) (auto simp: make_highlight_def Let_def split: prod.splits)

lemma build_highlights_Inr:
  "\<forall>(k, v) \<in> set gs. v \<noteq> [] \<Longrightarrow> \<exists>hs st'. build_highlights client prov cat gs st = Inr (hs, st')"
proof (induction gs arbitrary: st)
  case Nil
  then show ?case by simp
next
  case (Cons p gs)
  obtain g grp where p: "p = (g, grp)" by (cases p)
  from Cons.prems p have ne: "grp \<noteq> []" and rest: "\<forall>(k, v) \<in> set gs. v \<noteq> []" by auto
  from make_highlight_Inr [OF ne] obtain h st1
    where mh: "make_highlight client prov cat st grp = Inr (h, st1)" by blast
  from Cons.IH [OF rest] obtain hs st2
    where bh: "build_highlights client prov cat gs st1 = Inr (hs, st2)" by blast
  show ?case by (simp add: p mh bh)
qed

lemma generate_highlights_Inr:
  "\<exists>hs st'. generate_highlights client prov st articles cat = Inr (hs, st')"
proof (cases "category_articles articles cat = []")
  case True
  then show ?thesis by (simp add: generate_highlights_def)
next
  case False
  from build_highlights_Inr [OF group_articles_nonempty]
  obtain hs st' where
    "build_highlights client prov cat (group_articles (category_articles articles cat)) st = Inr (hs, st')"
    by blast
  with False show ?thesis by (simp add: generate_highlights_def)
qed

lemma make_highlight_of:
  "make_highlight client prov cat st grp = Inr (h, st') \<Longrightarrow> highlight_of cat grp h"
  by (cases grp) (auto simp: make_highlight_def highlight_of_def Let_def split: prod.splits)

lemma build_highlights_of:
  "build_highlights client prov cat gs st = Inr (hs, st') \<Longrightarrow>
   list_all2 (\<lambda>p h. highlight_of cat (snd p) h) gs hs"
proof (induction gs arbitrary: st hs)
  case Nil
  then show ?case by simp
next
  case (Cons p gs)
  obtain g grp where p: "p = (g, grp)" by (cases p)
  from Cons.prems p obtain h st1 hs1 where
    mh: "make_highlight client prov cat st grp = Inr (h, st1)" and
    bh: "build_highlights client prov cat gs st1 = Inr (hs1, st')" and
    hs: "hs = h # hs1"
    by (auto split: sum.splits prod.splits)
  from Cons.IH [OF bh] make_highlight_of [OF mh] show ?case by (simp add: hs p)
qed

lemma highlight_of_score:
  assumes "highlight_of cat grp h"
  shows "of_nat (hl_frequency h) * (1 / 2) \<le> hl_priority_score h"
    and "(1 / 2 :: rat) \<le> of_nat (hl_frequency h) * (1 / 2)"
    and "0 < hl_priority_score h"
    and "hl_keywords h = PRIORITY_KEYWORDS"
proof -
  from assms have ne: "grp \<noteq> []" and f: "hl_frequency h = length grp"
    and s: "hl_priority_score h = keyword_score (all_text grp) + of_nat (length grp) * (1 / 2)"
    and k: "hl_keywords h = (if hl_priority_score h > 0 then PRIORITY_KEYWORDS else [])"
    by (simp_all add: highlight_of_def)
  from ne have "1 \<le> length grp" by (cases grp) simp_all
  then have one: "(1::rat) \<le> of_nat (length grp)" by simp
  show a: "of_nat (hl_frequency h) * (1 / 2) \<le> hl_priority_score h"
    using keyword_score_nonneg [of "all_text grp"] by (simp add: f s)
  show b: "(1 / 2 :: rat) \<le> of_nat (hl_frequency h) * (1 / 2)"
    using one by (simp add: f)
  from a b show c: "0 < hl_priority_score h" by simp
  from c k show "hl_keywords h = PRIORITY_KEYWORDS" by simp
qed

lemma set_sort_reverse: "set (sort_reverse hs) = set hs"
  by (simp add: sort_reverse_def)

text \<open>
  C10. Every highlight \<open>generate_highlights\<close> returns has a priority score of at least
  half its frequency, which is at least one half; so the score is positive and the keywords
  field is the whole configured list. The call itself always returns.
\<close>

theorem generate_highlights_score_positive:
  "(\<exists>hs st'. generate_highlights client prov st articles cat = Inr (hs, st')) \<and>
   (\<forall>hs st'. generate_highlights client prov st articles cat = Inr (hs, st') \<longrightarrow>
      (\<forall>h \<in> set hs.
         of_nat (hl_frequency h) * (1 / 2) \<le> hl_priority_score h \<and>
         (1 / 2 :: rat) \<le> of_nat (hl_frequency h) * (1 / 2) \<and>
         0 < hl_priority_score h \<and>
         hl_keywords h = PRIORITY_KEYWORDS))"
proof (intro conjI allI impI ballI)
  show "\<exists>hs st'. generate_highlights client prov st articles cat = Inr (hs, st')"
    by (rule generate_highlights_Inr)
next
  fix hs st' h
  assume gh: "generate_highlights client prov st articles cat = Inr (hs, st')" and h: "h \<in> set hs"
  have "\<exists>grp. highlight_of cat grp h"
  proof (cases "category_articles articles cat = []")
    case True
    with gh h show ?thesis by (simp add: generate_highlights_def)
  next
    case False
    with gh obtain hs0 where
      bh: "build_highlights client prov cat (group_articles (category_articles articles cat)) st = Inr (hs0, st')"
      and hs: "hs = sort_reverse hs0"
      by (auto simp: generate_highlights_def split: sum.splits prod.splits)
    from h hs have "h \<in> set hs0" by (simp add: set_sort_reverse)
    with build_highlights_of [OF bh] show ?thesis
      by (auto simp: list_all2_conv_all_nth in_set_conv_nth)
  qed
  then obtain grp where ho: "highlight_of cat grp h" ..
  show "of_nat (hl_frequency h) * (1 / 2) \<le> hl_priority_score h" by (rule highlight_of_score(1) [OF ho])
  show "(1 / 2 :: rat) \<le> of_nat (hl_frequency h) * (1 / 2)" by (rule highlight_of_score(2) [OF ho])
  show "0 < hl_priority_score h" by (rule highlight_of_score(3) [OF ho])
  show "hl_keywords h = PRIORITY_KEYWORDS" by (rule highlight_of_score(4) [OF ho])
qed

lemma example_1_alone:
  "generate_highlights False no_provider initial_state [example_record_1] ''sports''
     = Inr ([example_highlight_1], initial_state)"
  by code_simp

theorem generate_highlights_score_positive_witness:
  "generate_highlights False no_provider initial_state [example_record_1] ''sports''
     = Inr ([example_highlight_1], initial_state) \<and>
   0 < hl_priority_score example_highlight_1 \<and>
   hl_keywords example_highlight_1 = PRIORITY_KEYWORDS"
proof -
  note e = example_1_alone
  from generate_highlights_score_positive
    [of False no_provider initial_state "[example_record_1]" "''sports''"]
  have "\<forall>h \<in> set [example_highlight_1].
          0 < hl_priority_score h \<and> hl_keywords h = PRIORITY_KEYWORDS"
    using e by blast
  with e show ?thesis by simp
qed

lemma filter_neq_filter: "filter (\<lambda>y. y \<noteq> k) (filter P xs) = filter (\<lambda>y. P y \<and> y \<noteq> k) xs"
  by (induction xs) auto

lemma foldl_groups_keys:
  "map fst (foldl (\<lambda>groups a. add_to_group (group_key a) a groups) gs arts)
     = map fst gs @ first_seen (filter (\<lambda>k. k \<notin> set (map fst gs)) (map group_key arts))"
proof (induction arts arbitrary: gs)
  case Nil
  then show ?case by simp
next
  case (Cons a arts)
  show ?case
  proof (cases "group_key a \<in> set (map fst gs)")
    case True
    then show ?thesis
      by (simp add: Cons.IH add_to_group_keys del: set_map)
  next
    case False
    have "filter (\<lambda>k. k \<notin> set (map fst gs @ [group_key a])) (map group_key arts)
            = filter (\<lambda>y. y \<noteq> group_key a) (filter (\<lambda>k. k \<notin> set (map fst gs)) (map group_key arts))"
      by (simp add: filter_neq_filter conj_commute)
    with False show ?thesis
      by (simp add: Cons.IH add_to_group_keys del: set_map)
  qed
qed

lemma group_articles_keys: "map fst (group_articles arts) = first_seen (map group_key arts)"
  unfolding group_articles_def by (simp add: foldl_groups_keys)

lemma add_to_group_distinct: "distinct (map fst gs) \<Longrightarrow> distinct (map fst (add_to_group g a gs))"
  by (simp add: add_to_group_keys del: set_map)

lemma add_to_group_map_of:
  "map_of (add_to_group g a gs) =
     (map_of gs)(g \<mapsto> (case map_of gs g of None \<Rightarrow> [a] | Some v \<Rightarrow> v @ [a]))"
  by (induction gs) (auto simp: fun_eq_iff)

lemma foldl_groups_map_of:
  "map_of (foldl (\<lambda>groups a. add_to_group (group_key a) a groups) gs arts) g =
     (case map_of gs g of
        None \<Rightarrow> (if filter (\<lambda>a. group_key a = g) arts = [] then None
                 else Some (filter (\<lambda>a. group_key a = g) arts))
      | Some v \<Rightarrow> Some (v @ filter (\<lambda>a. group_key a = g) arts))"
proof (induction arts arbitrary: gs)
  case Nil
  then show ?case by (simp split: option.splits)
next
  case (Cons a arts)
  show ?case
    by (simp add: Cons.IH add_to_group_map_of split: option.splits)
qed

lemma foldl_groups_distinct:
  "distinct (map fst gs) \<Longrightarrow>
   distinct (map fst (foldl (\<lambda>groups a. add_to_group (group_key a) a groups) gs arts))"
  by (induction arts arbitrary: gs) (simp_all add: add_to_group_distinct)

lemma group_articles_members:
  assumes "(g, members) \<in> set (group_articles arts)"
  shows "members = filter (\<lambda>a. group_key a = g) arts"
proof -
  have "distinct (map fst (group_articles arts))"
    unfolding group_articles_def by (rule foldl_groups_distinct) simp
  with assms have "map_of (group_articles arts) g = Some members" by simp
  then show ?thesis
    unfolding group_articles_def by (simp add: foldl_groups_map_of split: if_splits)
qed

lemma sort_reverse_sorted:
  "sorted_wrt (\<lambda>h1 h2. highlight_key h2 \<le> highlight_key h1) (sort_reverse hs)"
proof -
  have "sorted (map highlight_key (sort_key highlight_key (rev hs)))" by (rule sorted_sort_key)
  then have "sorted_wrt (\<lambda>h1 h2. highlight_key h1 \<le> highlight_key h2) (sort_key highlight_key (rev hs))"
    by (simp add: sorted_map)
  then show ?thesis by (simp add: sort_reverse_def sorted_wrt_rev)
qed

lemma sort_reverse_stable:
  "filter (\<lambda>h. highlight_key h = k) (sort_reverse hs) = filter (\<lambda>h. highlight_key h = k) hs"
proof -
  have "filter (\<lambda>h. highlight_key h = k) (sort_reverse hs)
          = rev (filter (\<lambda>h. highlight_key h = k) (sort_key highlight_key (rev hs)))"
    by (simp add: sort_reverse_def rev_filter)
  also have "\<dots> = rev (filter (\<lambda>h. highlight_key h = k) (rev hs))"
    by (simp only: sort_key_stable)
  also have "\<dots> = filter (\<lambda>h. highlight_key h = k) hs"
    by (simp add: rev_filter)
  finally show ?thesis .
qed

lemma sort_reverse_fields:
  "sorted_wrt (\<lambda>h1 h2. hl_priority_score h2 < hl_priority_score h1 \<or>
                 (hl_priority_score h2 = hl_priority_score h1 \<and> hl_frequency h2 \<le> hl_frequency h1))
     (sort_reverse hs)"
proof (rule sorted_wrt_mono_rel [OF _ sort_reverse_sorted])
  fix h1 h2
  assume "highlight_key h2 \<le> highlight_key h1"
  then show "hl_priority_score h2 < hl_priority_score h1 \<or>
     (hl_priority_score h2 = hl_priority_score h1 \<and> hl_frequency h2 \<le> hl_frequency h1)"
    by (auto simp: highlight_key_def less_eq_prod_def)
qed

lemma sort_reverse_fields_stable:
  "filter (\<lambda>h. hl_priority_score h = s \<and> hl_frequency h = f) (sort_reverse hs)
     = filter (\<lambda>h. hl_priority_score h = s \<and> hl_frequency h = f) hs"
  using sort_reverse_stable [of "(s, f)" hs] by (simp add: highlight_key_def)

lemma length_sort_reverse: "length (sort_reverse hs) = length hs"
  by (simp add: sort_reverse_def)

text \<open>
  C7. In the list \<open>generate_highlights\<close> returns, a highlight is followed only by
  highlights of a smaller priority score, or of the same score and a frequency that is
  not larger. The groups are visited in the order their keys are first seen in the
  filtered records, one highlight per group, and among the highlights of one score and
  one frequency the returned list keeps that order.
\<close>

theorem generate_highlights_sorted_stable:
  assumes "generate_highlights client prov st articles cat = Inr (out, st')"
  shows "sorted_wrt (\<lambda>h1 h2. hl_priority_score h2 < hl_priority_score h1 \<or>
                        (hl_priority_score h2 = hl_priority_score h1 \<and>
                         hl_frequency h2 \<le> hl_frequency h1)) out \<and>
         map fst (group_articles (category_articles articles cat))
           = first_seen (map group_key (category_articles articles cat)) \<and>
         (\<exists>hs0. list_all2 (\<lambda>p h. highlight_of cat (snd p) h)
                   (group_articles (category_articles articles cat)) hs0 \<and>
                length out = length hs0 \<and>
                (\<forall>s f. filter (\<lambda>h. hl_priority_score h = s \<and> hl_frequency h = f) out
                         = filter (\<lambda>h. hl_priority_score h = s \<and> hl_frequency h = f) hs0))"
proof (cases "category_articles articles cat = []")
  case True
  with assms have "out = []" by (simp add: generate_highlights_def)
  with True show ?thesis by (simp add: group_articles_def)
next
  case False
  with assms obtain hs0 where
    bh: "build_highlights client prov cat (group_articles (category_articles articles cat)) st = Inr (hs0, st')"
    and out: "out = sort_reverse hs0"
    by (auto simp: generate_highlights_def split: sum.splits prod.splits)
  have "sorted_wrt (\<lambda>h1 h2. hl_priority_score h2 < hl_priority_score h1 \<or>
                        (hl_priority_score h2 = hl_priority_score h1 \<and>
                         hl_frequency h2 \<le> hl_frequency h1)) out"
    unfolding out by (rule sort_reverse_fields)
  moreover have "\<forall>s f. filter (\<lambda>h. hl_priority_score h = s \<and> hl_frequency h = f) out
                         = filter (\<lambda>h. hl_priority_score h = s \<and> hl_frequency h = f) hs0"
    unfolding out by (simp add: sort_reverse_fields_stable)
  moreover have "length out = length hs0" unfolding out by (rule length_sort_reverse)
  moreover note build_highlights_of [OF bh] group_articles_keys
  ultimately show ?thesis by blast
qed

lemma example_1_2_3_unclustered:
  "generate_highlights False no_provider initial_state
     [example_record_1, example_record_2, example_record_3] ''sports''
     = Inr ([example_highlight_3, example_highlight_1, example_highlight_2], initial_state)"
  by code_simp

theorem generate_highlights_sorted_stable_witness:
  "generate_highlights False no_provider initial_state
     [example_record_1, example_record_2, example_record_3] ''sports''
     = Inr ([example_highlight_3, example_highlight_1, example_highlight_2], initial_state) \<and>
   map hl_priority_score [example_highlight_3, example_highlight_1, example_highlight_2]
     = [3 / 2, 1 / 2, 1 / 2] \<and>
   map hl_frequency [example_highlight_3, example_highlight_1, example_highlight_2] = [1, 1, 1] \<and>
   sorted_wrt (\<lambda>h1 h2. hl_priority_score h2 < hl_priority_score h1 \<or>
                  (hl_priority_score h2 = hl_priority_score h1 \<and>
                   hl_frequency h2 \<le> hl_frequency h1))
     [example_highlight_3, example_highlight_1, example_highlight_2] \<and>
   map fst (group_articles
              (category_articles [example_record_1, example_record_2, example_record_3] ''sports''))
     = first_seen (map group_key
         (category_articles [example_record_1, example_record_2, example_record_3] ''sports'')) \<and>
   first_seen (map group_key
       (category_articles [example_record_1, example_record_2, example_record_3] ''sports''))
     = [''single_https://example.org/1'', ''single_https://example.org/2'',
        ''single_https://example.org/3''] \<and>
   filter (\<lambda>h. hl_priority_score h = 1 / 2 \<and> hl_frequency h = 1)
       [example_highlight_3, example_highlight_1, example_highlight_2]
     = [example_highlight_1, example_highlight_2]"
proof -
  have "first_seen (map group_key
       (category_articles [example_record_1, example_record_2, example_record_3] ''sports''))
     = [''single_https://example.org/1'', ''single_https://example.org/2'',
        ''single_https://example.org/3'']"
    by code_simp
  moreover
  have "filter (\<lambda>h. hl_priority_score h = 1 / 2 \<and> hl_frequency h = 1)
       [example_highlight_3, example_highlight_1, example_highlight_2]
     = [example_highlight_1, example_highlight_2]"
    by (simp add: example_highlight_1_def example_highlight_2_def example_highlight_3_def)
  moreover
  have "map hl_priority_score [example_highlight_3, example_highlight_1, example_highlight_2]
          = [3 / 2, 1 / 2, 1 / 2]"
    by (simp add: example_highlight_1_def example_highlight_2_def example_highlight_3_def)
  moreover
  have "map hl_frequency [example_highlight_3, example_highlight_1, example_highlight_2] = [1, 1, 1]"
    by (simp add: example_highlight_1_def example_highlight_2_def example_highlight_3_def)
  moreover note generate_highlights_sorted_stable [OF example_1_2_3_unclustered]
    example_1_2_3_unclustered
  ultimately show ?thesis by blast
qed

section \<open>The quota flag\<close>






lemma query_body_flag:
  "query_body client prov encode vi coll st msg k = Inr (r, st') \<Longrightarrow>
   openai_quota_exceeded st' = openai_quota_exceeded st"
  by (auto simp: query_body_def Let_def split: sum.splits list.splits if_splits)

lemma query_flag:
  "openai_quota_exceeded (snd (query client prov encode vi coll st msg k)) = openai_quota_exceeded st"
  by (auto simp: query_def split: sum.splits dest: query_body_flag)







section \<open>The chatbot\<close>

lemma query_body_flag_irrelevant:
  "query_body client prov encode vi coll (st\<lparr>openai_quota_exceeded := b\<rparr>) msg k =
     map_sum id (\<lambda>(r, st'). (r, st'\<lparr>openai_quota_exceeded := b\<rparr>))
       (query_body client prov encode vi coll st msg k)"
  by (auto simp: query_body_def Let_def split: sum.splits list.splits)

lemma query_flag_irrelevant:
  "query client prov encode vi coll (st\<lparr>openai_quota_exceeded := b\<rparr>) msg k =
     (fst (query client prov encode vi coll st msg k),
      (snd (query client prov encode vi coll st msg k))\<lparr>openai_quota_exceeded := b\<rparr>)"
  by (auto simp: query_def query_body_flag_irrelevant split: sum.splits)

lemma query_provider_answer:
  assumes "client" and "encode [msg] = Inr (v # vs)" and "vi_query vi coll v k = Inr results"
    and "first_documents results \<noteq> []"
    and "prov (provider_calls st) chat_system_prompt
           (chat_user_prompt (build_context (first_documents results)) msg) = Inr text"
  shows "fst (query client prov encode vi coll st msg k) = strip text"
  using assms by (auto simp: query_def query_body_def Let_def split: sum.splits)

lemma query_provider_error:
  assumes "client" and "encode [msg] = Inr (v # vs)" and "vi_query vi coll v k = Inr results"
    and "first_documents results \<noteq> []"
    and "prov (provider_calls st) chat_system_prompt
           (chat_user_prompt (build_context (first_documents results)) msg) = Inl e"
  shows "fst (query client prov encode vi coll st msg k)
           = generate_fallback_response (first_documents results) msg"
  using assms by (auto simp: query_def query_body_def Let_def split: sum.splits)

lemma query_outer_handler:
  "query_body client prov encode vi coll st msg k = Inl e \<Longrightarrow>
   query client prov encode vi coll st msg k = (apology_message, st)"
  by (simp add: query_def)

lemma query_encode_raises:
  "encode [msg] = Inl e \<Longrightarrow> query client prov encode vi coll st msg k = (apology_message, st)"
  by (simp add: query_def query_body_def)

lemma query_index_raises:
  "encode [msg] = Inr (v # vs) \<Longrightarrow> vi_query vi coll v k = Inl e \<Longrightarrow>
   query client prov encode vi coll st msg k = (apology_message, st)"
  by (simp add: query_def query_body_def)

lemma query_no_documents:
  "encode [msg] = Inr (v # vs) \<Longrightarrow> vi_query vi coll v k = Inr results \<Longrightarrow>
   first_documents results = [] \<Longrightarrow>
   query client prov encode vi coll st msg k = (insufficient_message, st)"
  by (simp add: query_def query_body_def)

lemma spec_query_empty:
  "0 < k \<Longrightarrow> \<exists>results. vi_query (spec_vector_index distance) [] v k = Inr results \<and>
     first_documents results = []"
  by (simp add: spec_vector_index_def spec_query_def first_documents_def)

lemma query_never_populated:
  assumes "encode [msg] = Inr (v # vs)" and "0 < k"
  shows "query client prov encode (spec_vector_index distance) [] st msg k = (insufficient_message, st)"
proof -
  have q: "vi_query (spec_vector_index distance) [] v k
             = Inr \<lparr>documents = Some [[]], metadatas = Some [[]]\<rparr>"
    using assms(2) by (simp add: spec_vector_index_def spec_query_def)
  have d: "first_documents \<lparr>documents = Some [[]], metadatas = Some [[]]\<rparr> = []"
    by (simp add: first_documents_def)
  from assms(1) q d show ?thesis by (simp add: query_def query_body_def)
qed

text \<open>
  C1 (amended). The flag belongs to the summarization path alone. \<open>query\<close> leaves it as
  it is, answers the same whatever its value, and sends its request to the provider
  whenever a client exists and documents were retrieved; \<open>summarize_article\<close> sets it on
  a quota error and bypasses the provider once it is set.
\<close>

theorem quota_flag_private_to_summarization:
  "openai_quota_exceeded (snd (query client prov encode vi coll st msg k)) = openai_quota_exceeded st \<and>
   query client prov encode vi coll (st\<lparr>openai_quota_exceeded := b\<rparr>) msg k =
     (fst (query client prov encode vi coll st msg k),
      (snd (query client prov encode vi coll st msg k))\<lparr>openai_quota_exceeded := b\<rparr>) \<and>
   (client \<and> encode [msg] = Inr (v # vs) \<and> vi_query vi coll v k = Inr results \<and>
      first_documents results \<noteq> []
    \<longrightarrow> provider_calls (snd (query client prov encode vi coll st msg k)) = Suc (provider_calls st)) \<and>
   (client \<and> \<not> openai_quota_exceeded st \<and>
      prov (provider_calls st) summarize_system_prompt (summarize_user_prompt a) = Inl e \<and>
      is_quota_error e
    \<longrightarrow> openai_quota_exceeded (snd (summarize_article client prov st a))) \<and>
   (openai_quota_exceeded st \<longrightarrow> summarize_article client prov st a = (extractive_summary a, st))"
proof (intro conjI impI)
  show "openai_quota_exceeded (snd (query client prov encode vi coll st msg k)) = openai_quota_exceeded st"
    by (simp add: query_flag)
  show "query client prov encode vi coll (st\<lparr>openai_quota_exceeded := b\<rparr>) msg k =
     (fst (query client prov encode vi coll st msg k),
      (snd (query client prov encode vi coll st msg k))\<lparr>openai_quota_exceeded := b\<rparr>)"
    by (simp add: query_flag_irrelevant)
next
  assume "client \<and> encode [msg] = Inr (v # vs) \<and> vi_query vi coll v k = Inr results \<and>
      first_documents results \<noteq> []"
  then show "provider_calls (snd (query client prov encode vi coll st msg k)) = Suc (provider_calls st)"
    by (auto simp: query_def query_body_def Let_def split: sum.splits)
next
  assume h: "client \<and> \<not> openai_quota_exceeded st \<and>
      prov (provider_calls st) summarize_system_prompt (summarize_user_prompt a) = Inl e \<and>
      is_quota_error e"
  then show "openai_quota_exceeded (snd (summarize_article client prov st a))"
    by (simp add: summarize_article_def Let_def)
next
  assume "openai_quota_exceeded st"
  then show "summarize_article client prov st a = (extractive_summary a, st)"
    by (simp add: summarize_article_def)
qed

theorem quota_flag_private_to_summarization_witness:
  "(True \<and> unit_encoder [example_question] = Inr [()] \<and>
      vi_query (spec_vector_index unit_dist) example_collection () 3
        = Inr \<lparr>documents = Some [[doc_text example_highlight_1]],
               metadatas = Some [[metadata_of example_highlight_1]]\<rparr> \<and>
      first_documents \<lparr>documents = Some [[doc_text example_highlight_1]],
                       metadatas = Some [[metadata_of example_highlight_1]]\<rparr> \<noteq> []) \<and>
   provider_calls (snd (query True quota_then_answer unit_encoder (spec_vector_index unit_dist)
                          example_collection degraded_state example_question 3))
     = Suc (provider_calls degraded_state) \<and>
   openai_quota_exceeded degraded_state \<and>
   summarize_article True quota_then_answer degraded_state example_record_1
     = (extractive_summary example_record_1, degraded_state)"
proof -
  have h: "True \<and> unit_encoder [example_question] = Inr [()] \<and>
      vi_query (spec_vector_index unit_dist) example_collection () 3
        = Inr \<lparr>documents = Some [[doc_text example_highlight_1]],
               metadatas = Some [[metadata_of example_highlight_1]]\<rparr> \<and>
      first_documents \<lparr>documents = Some [[doc_text example_highlight_1]],
                       metadatas = Some [[metadata_of example_highlight_1]]\<rparr> \<noteq> []"
    by (simp add: unit_encoder_def spec_vector_index_def spec_query_def example_collection_def
        first_documents_def)
  have d: "openai_quota_exceeded degraded_state" by (simp add: degraded_state_def)
  note t = quota_flag_private_to_summarization
    [of True quota_then_answer unit_encoder "spec_vector_index unit_dist" example_collection
        degraded_state example_question 3 True "()" "[]"
        "\<lparr>documents = Some [[doc_text example_highlight_1]],
          metadatas = Some [[metadata_of example_highlight_1]]\<rparr>" example_record_1]
  from t h d show ?thesis by blast
qed

text \<open>
  C1 as stated fails in both directions. After \<open>summarize_article\<close> has met a rate-limit
  error and set the flag, \<open>query\<close> still sends its request and returns the provider's
  text. After \<open>query\<close> has met a quota error the flag is still unset, and the next
  \<open>summarize_article\<close> sends a request again.
\<close>

theorem quota_flag_not_shared_counterexample:
  "snd (summarize_article True quota_then_answer initial_state example_record_1) = degraded_state \<and>
   openai_quota_exceeded degraded_state \<and>
   query True quota_then_answer unit_encoder (spec_vector_index unit_dist) example_collection
     degraded_state example_question 3
     = (''The team won the final.'', \<lparr>openai_quota_exceeded = True, provider_calls = 2\<rparr>) \<and>
   snd (query True always_quota unit_encoder (spec_vector_index unit_dist) example_collection
          initial_state example_question 3)
     = \<lparr>openai_quota_exceeded = False, provider_calls = 1\<rparr> \<and>
   provider_calls (snd (summarize_article True always_quota
       \<lparr>openai_quota_exceeded = False, provider_calls = 1\<rparr> example_record_1)) = 2"
  by code_simp

text \<open>
  C8 (amended). \<open>query\<close> always returns a text. An exception that reaches the outer
  handler (from embedding the question, from the index) gives the apology; no retrieved
  document, as on an index never populated, gives the insufficient-information message;
  an exception of the generation provider is caught by the inner handler and gives the
  fallback answer built from the retrieved documents, not the apology.
\<close>

theorem query_never_raises:
  "(query_body client prov encode vi coll st msg k = Inl e
      \<longrightarrow> query client prov encode vi coll st msg k = (apology_message, st)) \<and>
   (query_body client prov encode vi coll st msg k = Inr r
      \<longrightarrow> query client prov encode vi coll st msg k = r) \<and>
   (encode [msg] = Inl e \<longrightarrow> query client prov encode vi coll st msg k = (apology_message, st)) \<and>
   (encode [msg] = Inr (v # vs) \<and> vi_query vi coll v k = Inl e
      \<longrightarrow> query client prov encode vi coll st msg k = (apology_message, st)) \<and>
   (encode [msg] = Inr (v # vs) \<and> vi_query vi coll v k = Inr results \<and> first_documents results = []
      \<longrightarrow> query client prov encode vi coll st msg k = (insufficient_message, st)) \<and>
   (encode [msg] = Inr (v # vs) \<and> 0 < k
      \<longrightarrow> query client prov encode (spec_vector_index distance) [] st msg k = (insufficient_message, st)) \<and>
   (client \<and> encode [msg] = Inr (v # vs) \<and> vi_query vi coll v k = Inr results \<and>
      first_documents results \<noteq> [] \<and>
      prov (provider_calls st) chat_system_prompt
        (chat_user_prompt (build_context (first_documents results)) msg) = Inl e
      \<longrightarrow> fst (query client prov encode vi coll st msg k)
            = generate_fallback_response (first_documents results) msg)"
proof (intro conjI impI)
  assume "query_body client prov encode vi coll st msg k = Inl e"
  then show "query client prov encode vi coll st msg k = (apology_message, st)"
    by (simp add: query_def)
next
  assume "query_body client prov encode vi coll st msg k = Inr r"
  then show "query client prov encode vi coll st msg k = r"
    by (simp add: query_def)
next
  assume "encode [msg] = Inl e"
  then show "query client prov encode vi coll st msg k = (apology_message, st)"
    by (simp add: query_def query_body_def)
next
  assume "encode [msg] = Inr (v # vs) \<and> vi_query vi coll v k = Inl e"
  then show "query client prov encode vi coll st msg k = (apology_message, st)"
    by (simp add: query_def query_body_def)
next
  assume "encode [msg] = Inr (v # vs) \<and> vi_query vi coll v k = Inr results \<and> first_documents results = []"
  then show "query client prov encode vi coll st msg k = (insufficient_message, st)"
    by (simp add: query_def query_body_def)
next
  assume "encode [msg] = Inr (v # vs) \<and> 0 < k"
  then show "query client prov encode (spec_vector_index distance) [] st msg k = (insufficient_message, st)"
    by (simp add: query_def query_body_def spec_vector_index_def spec_query_def first_documents_def)
next
  assume "client \<and> encode [msg] = Inr (v # vs) \<and> vi_query vi coll v k = Inr results \<and>
      first_documents results \<noteq> [] \<and>
      prov (provider_calls st) chat_system_prompt
        (chat_user_prompt (build_context (first_documents results)) msg) = Inl e"
  then show "fst (query client prov encode vi coll st msg k)
            = generate_fallback_response (first_documents results) msg"
    by (simp add: query_def query_body_def Let_def)
qed

theorem query_never_raises_witness:
  "failing_encoder [example_question] = Inl (Exception ''model not loaded'') \<and>
   query True always_down failing_encoder (spec_vector_index unit_dist) example_collection
     initial_state example_question 3 = (apology_message, initial_state) \<and>
   unit_encoder [example_question] = Inr [()] \<and> (0::int) < 3 \<and>
   query True always_down unit_encoder (spec_vector_index unit_dist) []
     initial_state example_question 3 = (insufficient_message, initial_state)"
proof -
  have h1: "failing_encoder [example_question] = Inl (Exception ''model not loaded'')"
    by (simp add: failing_encoder_def)
  have h2: "unit_encoder [example_question] = Inr [()] \<and> (0::int) < 3"
    by (simp add: unit_encoder_def)
  note t1 = query_never_raises
    [of True always_down failing_encoder "spec_vector_index unit_dist" example_collection
        initial_state example_question 3 "Exception ''model not loaded''"]
  note t2 = query_never_raises
    [of True always_down unit_encoder "spec_vector_index unit_dist" example_collection
        initial_state example_question 3 _ _ "()" "[]" _ unit_dist]
  from t1 h1 have a: "query True always_down failing_encoder (spec_vector_index unit_dist)
     example_collection initial_state example_question 3 = (apology_message, initial_state)"
    by blast
  from t2 h2 have b: "query True always_down unit_encoder (spec_vector_index unit_dist) []
     initial_state example_question 3 = (insufficient_message, initial_state)"
    by blast
  from h1 h2 a b show ?thesis by blast
qed

text \<open>
  C8 as stated fails where it says that any other exception gives the apology: when the
  generation provider raises, \<open>query\<close> returns the fallback answer.
\<close>

theorem query_provider_exception_counterexample:
  "always_down 0 chat_system_prompt
     (chat_user_prompt (build_context [doc_text example_highlight_1]) example_question)
     = Inl (Exception ''Connection error.'') \<and>
   fst (query True always_down unit_encoder (spec_vector_index unit_dist) example_collection
          initial_state example_question 3)
     = generate_fallback_response [doc_text example_highlight_1] example_question \<and>
   generate_fallback_response [doc_text example_highlight_1] example_question \<noteq> apology_message"
  by code_simp

section \<open>Indexing\<close>

lemma length_highlight_ids: "length (highlight_ids n) = n"
  by (simp add: highlight_ids_def)

text \<open>
  C9 fails on the code. \<open>index_highlights\<close> means to clear the collection first, but the
  library rejects the empty filter of \<open>delete(where={})\<close>; the handler logs the exception
  and the call goes on. A collection that holds three entries of an earlier run is the
  same after a run with one highlight: \<open>highlight_1\<close> and \<open>highlight_2\<close> linger, and
  \<open>highlight_0\<close> keeps its old document, the add of a stored id being skipped.
\<close>

theorem index_highlights_keeps_stale_entries:
  "index_highlights (failing_delete_index unit_dist) unit_encoder stale_collection
     [example_highlight_1] = Inr stale_collection \<and>
   map entry_id stale_collection = [''highlight_0'', ''highlight_1'', ''highlight_2''] \<and>
   map entry_document stale_collection = replicate 3 (doc_text example_highlight_2) \<and>
   highlight_ids (length [example_highlight_1]) = [''highlight_0''] \<and>
   doc_text example_highlight_1 \<noteq> doc_text example_highlight_2"
  by code_simp

section \<open>Duplicate detection: groups and marks\<close>

lemma cluster_members_snoc:
  "cluster_members (labels @ [x]) l
     = cluster_members labels l @ (if x = l then [length labels] else [])"
proof -
  have "filter (\<lambda>j. (labels @ [x]) ! j = l) [0..<length labels]
          = filter (\<lambda>j. labels ! j = l) [0..<length labels]"
    by (rule filter_cong) (simp_all add: nth_append)
  then show ?thesis by (simp add: cluster_members_def)
qed

lemma cluster_groups_snoc:
  "cluster_groups (labels @ [x])
     = (if x \<noteq> - 1 then add_to_group x (length labels) (cluster_groups labels)
        else cluster_groups labels)"
  by (simp add: cluster_groups_def enumerate_append_eq)

lemma cluster_groups_distinct: "distinct (map fst (cluster_groups labels))"
proof (induction labels rule: rev_induct)
  case Nil
  show ?case by (simp add: cluster_groups_def)
next
  case (snoc x xs)
  then show ?case by (simp add: cluster_groups_snoc add_to_group_distinct)
qed

lemma cluster_groups_map_of:
  "map_of (cluster_groups labels) l
     = (if l \<noteq> - 1 \<and> cluster_members labels l \<noteq> [] then Some (cluster_members labels l) else None)"
proof (induction labels arbitrary: l rule: rev_induct)
  case Nil
  show ?case by (simp add: cluster_groups_def cluster_members_def)
next
  case (snoc x xs)
  show ?case
    by (simp add: cluster_groups_snoc cluster_members_snoc add_to_group_map_of snoc.IH)
qed

lemma cluster_groups_member:
  assumes "(l, idxs) \<in> set (cluster_groups labels)"
  shows "idxs = cluster_members labels l \<and> l \<noteq> - 1 \<and> idxs \<noteq> []"
proof -
  from assms cluster_groups_distinct have "map_of (cluster_groups labels) l = Some idxs" by simp
  then show ?thesis by (simp add: cluster_groups_map_of split: if_splits)
qed

lemma cluster_members_distinct: "distinct (cluster_members labels l)"
  by (simp add: cluster_members_def)

lemma cluster_members_set:
  "j \<in> set (cluster_members labels l) \<longleftrightarrow> j < length labels \<and> labels ! j = l"
  by (auto simp: cluster_members_def)

lemma cluster_members_sorted: "sorted (cluster_members labels l)"
  unfolding cluster_members_def by (rule sorted_wrt_filter) simp

lemma mark_duplicate_nth:
  assumes "mark_duplicate gid p d arts = Inr out" and "p \<noteq> d"
  shows "length out = length arts \<and> d < length arts \<and> p < length arts \<and>
         (\<forall>i < length arts. out ! i =
            (if i = d then (arts ! i)\<lparr>is_duplicate := True, duplicate_group_id := Some gid\<rparr>
             else if i = p then (arts ! i)\<lparr>duplicate_group_id := Some gid\<rparr>
             else arts ! i))"
  using assms by (auto simp: mark_duplicate_def Let_def split: if_splits)

lemma mark_cluster_nth:
  "mark_cluster gid p ds arts = Inr out \<Longrightarrow> p \<notin> set ds \<Longrightarrow>
   length out = length arts \<and> (\<forall>d \<in> set ds. d < length arts) \<and> (ds \<noteq> [] \<longrightarrow> p < length arts) \<and>
   (\<forall>i < length arts. out ! i =
      (if i \<in> set ds then (arts ! i)\<lparr>is_duplicate := True, duplicate_group_id := Some gid\<rparr>
       else if i = p \<and> ds \<noteq> [] then (arts ! i)\<lparr>duplicate_group_id := Some gid\<rparr>
       else arts ! i))"
proof (induction ds arbitrary: arts)
  case Nil
  then show ?case by simp
next
  case (Cons d ds)
  from Cons.prems(1) obtain a1 where
    md: "mark_duplicate gid p d arts = Inr a1" and mc: "mark_cluster gid p ds a1 = Inr out"
    by (auto split: sum.splits)
  from Cons.prems(2) have pd: "p \<noteq> d" and pds: "p \<notin> set ds" by auto
  note m1 = mark_duplicate_nth [OF md pd]
  note m2 = Cons.IH [OF mc pds]
  from m1 m2 have len: "length out = length arts" by simp
  have rng: "\<forall>x \<in> set (d # ds). x < length arts" using m1 m2 by simp
  have pr: "p < length arts" using m1 by simp
  have nth: "out ! i =
      (if i \<in> set (d # ds) then (arts ! i)\<lparr>is_duplicate := True, duplicate_group_id := Some gid\<rparr>
       else if i = p \<and> d # ds \<noteq> [] then (arts ! i)\<lparr>duplicate_group_id := Some gid\<rparr>
       else arts ! i)" if i: "i < length arts" for i
  proof -
    from m1 i have a1: "a1 ! i =
            (if i = d then (arts ! i)\<lparr>is_duplicate := True, duplicate_group_id := Some gid\<rparr>
             else if i = p then (arts ! i)\<lparr>duplicate_group_id := Some gid\<rparr>
             else arts ! i)" by simp
    from m2 m1 i have o: "out ! i =
      (if i \<in> set ds then (a1 ! i)\<lparr>is_duplicate := True, duplicate_group_id := Some gid\<rparr>
       else if i = p \<and> ds \<noteq> [] then (a1 ! i)\<lparr>duplicate_group_id := Some gid\<rparr>
       else a1 ! i)" by simp
    from pd pds show ?thesis unfolding o a1 by auto
  qed
  from len rng pr nth show ?case by blast
qed

lemma mark_cluster_total:
  "\<forall>d \<in> set ds. d < length arts \<Longrightarrow> ds \<noteq> [] \<longrightarrow> p < length arts \<Longrightarrow>
   \<exists>out. mark_cluster gid p ds arts = Inr out"
proof (induction ds arbitrary: arts)
  case Nil
  then show ?case by simp
next
  case (Cons d ds)
  let ?a1 = "(arts[d := (arts ! d)\<lparr>is_duplicate := True, duplicate_group_id := Some gid\<rparr>])
               [p := ((arts[d := (arts ! d)\<lparr>is_duplicate := True, duplicate_group_id := Some gid\<rparr>]) ! p)
                       \<lparr>duplicate_group_id := Some gid\<rparr>]"
  from Cons.prems have md: "mark_duplicate gid p d arts = Inr ?a1"
    by (simp add: mark_duplicate_def Let_def)
  from Cons.prems have "\<exists>out. mark_cluster gid p ds ?a1 = Inr out"
    by (intro Cons.IH) simp_all
  with md show ?case by simp
qed

lemma mark_clusters_nth:
  "mark_clusters gs arts = Inr out \<Longrightarrow> distinct (map fst gs) \<Longrightarrow>
   \<forall>(l, idxs) \<in> set gs. distinct idxs \<and> (\<forall>j \<in> set idxs. lab j = l) \<Longrightarrow>
   length out = length arts \<and>
   (\<forall>(l, idxs) \<in> set gs. tl idxs \<noteq> [] \<longrightarrow> (\<forall>j \<in> set idxs. j < length arts)) \<and>
   (\<forall>i < length arts. out ! i =
      (case map_of gs (lab i) of
         None \<Rightarrow> arts ! i
       | Some idxs \<Rightarrow>
           if i \<in> set (tl idxs)
           then (arts ! i)\<lparr>is_duplicate := True,
                            duplicate_group_id := Some (''group_'' @ str_int (lab i))\<rparr>
           else if i = hd idxs \<and> tl idxs \<noteq> []
           then (arts ! i)\<lparr>duplicate_group_id := Some (''group_'' @ str_int (lab i))\<rparr>
           else arts ! i))"
proof (induction gs arbitrary: arts)
  case Nil
  then show ?case by simp
next
  case (Cons g gs)
  obtain l idxs where g: "g = (l, idxs)" by (cases g)
  from Cons.prems(1) g obtain p ds a1 where
    idxs: "idxs = p # ds" and
    mc: "mark_cluster (''group_'' @ str_int l) p ds arts = Inr a1" and
    rest: "mark_clusters gs a1 = Inr out"
    by (auto split: list.splits sum.splits)
  from Cons.prems(3) g idxs have pds: "p \<notin> set ds" and lab: "\<forall>j \<in> set (p # ds). lab j = l"
    by auto
  from Cons.prems(2) g have dist: "distinct (map fst gs)" and fresh: "l \<notin> fst ` set gs"
    by auto
  from Cons.prems(3)
  have inv: "\<forall>(l, idxs) \<in> set gs. distinct idxs \<and> (\<forall>j \<in> set idxs. lab j = l)"
    by simp
  note m1 = mark_cluster_nth [OF mc pds]
  note m2 = Cons.IH [OF rest dist inv]
  from fresh have none: "map_of gs l = None" by (simp add: map_of_eq_None_iff)
  from m1 have len1: "length a1 = length arts" by simp
  from m2 len1 have len: "length out = length arts" by simp
  from m2 len1
  have rng2: "\<forall>(l, idxs) \<in> set gs. tl idxs \<noteq> [] \<longrightarrow> (\<forall>j \<in> set idxs. j < length arts)"
    by simp
  from m1 have rng1: "tl (p # ds) \<noteq> [] \<longrightarrow> (\<forall>j \<in> set (p # ds). j < length arts)"
    by simp
  from rng1 rng2 g idxs
  have rng: "\<forall>(l, idxs) \<in> set (g # gs). tl idxs \<noteq> [] \<longrightarrow> (\<forall>j \<in> set idxs. j < length arts)"
    by simp
  have nth: "out ! i =
      (case map_of (g # gs) (lab i) of
         None \<Rightarrow> arts ! i
       | Some idxs \<Rightarrow>
           if i \<in> set (tl idxs)
           then (arts ! i)\<lparr>is_duplicate := True,
                            duplicate_group_id := Some (''group_'' @ str_int (lab i))\<rparr>
           else if i = hd idxs \<and> tl idxs \<noteq> []
           then (arts ! i)\<lparr>duplicate_group_id := Some (''group_'' @ str_int (lab i))\<rparr>
           else arts ! i)" if i: "i < length arts" for i
  proof (cases "lab i = l")
    case True
    from m2 i len1 none True have "out ! i = a1 ! i" by simp
    also from m1 i have "\<dots> =
      (if i \<in> set ds
       then (arts ! i)\<lparr>is_duplicate := True,
                        duplicate_group_id := Some (''group_'' @ str_int l)\<rparr>
       else if i = p \<and> ds \<noteq> []
       then (arts ! i)\<lparr>duplicate_group_id := Some (''group_'' @ str_int l)\<rparr>
       else arts ! i)" by simp
    finally have f: "out ! i =
      (if i \<in> set ds
       then (arts ! i)\<lparr>is_duplicate := True,
                        duplicate_group_id := Some (''group_'' @ str_int l)\<rparr>
       else if i = p \<and> ds \<noteq> []
       then (arts ! i)\<lparr>duplicate_group_id := Some (''group_'' @ str_int l)\<rparr>
       else arts ! i)" .
    show ?thesis unfolding True g idxs using f by simp
  next
    case False
    with lab have "i \<notin> set (p # ds)" by auto
    with m1 i have a1: "a1 ! i = arts ! i" by simp
    from False g have mo: "map_of (g # gs) (lab i) = map_of gs (lab i)" by simp
    from m2 i len1 have "out ! i =
      (case map_of gs (lab i) of
         None \<Rightarrow> a1 ! i
       | Some idxs \<Rightarrow>
           if i \<in> set (tl idxs)
           then (a1 ! i)\<lparr>is_duplicate := True,
                          duplicate_group_id := Some (''group_'' @ str_int (lab i))\<rparr>
           else if i = hd idxs \<and> tl idxs \<noteq> []
           then (a1 ! i)\<lparr>duplicate_group_id := Some (''group_'' @ str_int (lab i))\<rparr>
           else a1 ! i)" by simp
    then show ?thesis unfolding mo a1 .
  qed
  from len rng nth show ?case by blast
qed

lemma cluster_groups_marks:
  assumes mk: "mark_clusters (cluster_groups labels) arts = Inr out"
  shows "length out = length arts \<and>
   (\<forall>l. l \<noteq> - 1 \<and> tl (cluster_members labels l) \<noteq> [] \<longrightarrow>
        (\<forall>j \<in> set (cluster_members labels l). j < length arts)) \<and>
   (\<forall>i < length arts. out ! i =
      (if i < length labels \<and> labels ! i \<noteq> - 1 then
         if i \<in> set (tl (cluster_members labels (labels ! i)))
         then (arts ! i)\<lparr>is_duplicate := True,
                          duplicate_group_id := Some (''group_'' @ str_int (labels ! i))\<rparr>
         else if i = hd (cluster_members labels (labels ! i)) \<and>
                 tl (cluster_members labels (labels ! i)) \<noteq> []
         then (arts ! i)\<lparr>duplicate_group_id := Some (''group_'' @ str_int (labels ! i))\<rparr>
         else arts ! i
       else arts ! i))"
proof -
  define lab where "lab i = (if i < length labels then labels ! i else - 1)" for i
  have inv: "\<forall>(l, idxs) \<in> set (cluster_groups labels).
               distinct idxs \<and> (\<forall>j \<in> set idxs. lab j = l)"
  proof (clarify, rule conjI)
    fix l idxs
    assume "(l, idxs) \<in> set (cluster_groups labels)"
    then have eq: "idxs = cluster_members labels l" by (simp add: cluster_groups_member)
    show "distinct idxs" unfolding eq by (rule cluster_members_distinct)
    show "\<forall>j \<in> set idxs. lab j = l" unfolding eq by (simp add: cluster_members_set lab_def)
  qed
  note m = mark_clusters_nth [OF mk cluster_groups_distinct inv]
  from m have len: "length out = length arts" by simp
  have rng: "j < length arts"
    if l: "l \<noteq> - 1" and t: "tl (cluster_members labels l) \<noteq> []"
      and j: "j \<in> set (cluster_members labels l)" for l j
  proof -
    from t have "cluster_members labels l \<noteq> []" by auto
    with l have "map_of (cluster_groups labels) l = Some (cluster_members labels l)"
      by (simp add: cluster_groups_map_of)
    then have "(l, cluster_members labels l) \<in> set (cluster_groups labels)"
      by (rule map_of_SomeD)
    with m t j show ?thesis by blast
  qed
  have nth: "out ! i =
      (if i < length labels \<and> labels ! i \<noteq> - 1 then
         if i \<in> set (tl (cluster_members labels (labels ! i)))
         then (arts ! i)\<lparr>is_duplicate := True,
                          duplicate_group_id := Some (''group_'' @ str_int (labels ! i))\<rparr>
         else if i = hd (cluster_members labels (labels ! i)) \<and>
                 tl (cluster_members labels (labels ! i)) \<noteq> []
         then (arts ! i)\<lparr>duplicate_group_id := Some (''group_'' @ str_int (labels ! i))\<rparr>
         else arts ! i
       else arts ! i)" if i: "i < length arts" for i
  proof -
    from m i have e: "out ! i =
      (case map_of (cluster_groups labels) (lab i) of
         None \<Rightarrow> arts ! i
       | Some idxs \<Rightarrow>
           if i \<in> set (tl idxs)
           then (arts ! i)\<lparr>is_duplicate := True,
                            duplicate_group_id := Some (''group_'' @ str_int (lab i))\<rparr>
           else if i = hd idxs \<and> tl idxs \<noteq> []
           then (arts ! i)\<lparr>duplicate_group_id := Some (''group_'' @ str_int (lab i))\<rparr>
           else arts ! i)" by blast
    show ?thesis
    proof (cases "i < length labels \<and> labels ! i \<noteq> - 1")
      case True
      then have li: "lab i = labels ! i" by (simp add: lab_def)
      from True have "i \<in> set (cluster_members labels (labels ! i))"
        by (simp add: cluster_members_set)
      then have "cluster_members labels (labels ! i) \<noteq> []" by auto
      with True have mo: "map_of (cluster_groups labels) (labels ! i)
                        = Some (cluster_members labels (labels ! i))"
        by (simp add: cluster_groups_map_of)
      from e have "out ! i =
           (if i \<in> set (tl (cluster_members labels (labels ! i)))
            then (arts ! i)\<lparr>is_duplicate := True,
                             duplicate_group_id := Some (''group_'' @ str_int (labels ! i))\<rparr>
            else if i = hd (cluster_members labels (labels ! i)) \<and>
                    tl (cluster_members labels (labels ! i)) \<noteq> []
            then (arts ! i)\<lparr>duplicate_group_id := Some (''group_'' @ str_int (labels ! i))\<rparr>
            else arts ! i)"
        unfolding li mo by simp
      then show ?thesis by (simp only: if_P [OF True])
    next
      case False
      then have li: "lab i = - 1" by (auto simp: lab_def)
      have mo: "map_of (cluster_groups labels) (- 1) = None"
        by (simp add: cluster_groups_map_of)
      from e have "out ! i = arts ! i" unfolding li mo by simp
      then show ?thesis by (simp only: if_not_P [OF False])
    qed
  qed
  from len rng nth show ?thesis by blast
qed

lemma mark_cluster_length:
  "mark_cluster gid p ds arts = Inr out \<Longrightarrow> length out = length arts"
proof (induction ds arbitrary: arts)
  case Nil
  then show ?case by simp
next
  case (Cons d ds)
  from Cons.prems obtain a1 where
    md: "mark_duplicate gid p d arts = Inr a1" and mc: "mark_cluster gid p ds a1 = Inr out"
    by (auto split: sum.splits)
  from md have "length a1 = length arts"
    by (auto simp: mark_duplicate_def Let_def split: if_splits)
  with Cons.IH [OF mc] show ?case by simp
qed

lemma mark_clusters_total:
  "\<forall>(l, idxs) \<in> set gs. idxs \<noteq> [] \<and> (\<forall>j \<in> set idxs. j < length arts) \<Longrightarrow>
   \<exists>out. mark_clusters gs arts = Inr out"
proof (induction gs arbitrary: arts)
  case Nil
  then show ?case by simp
next
  case (Cons g gs)
  obtain l idxs where g: "g = (l, idxs)" by (cases g)
  from Cons.prems g obtain p ds where idxs: "idxs = p # ds" by (cases idxs) auto
  from Cons.prems g idxs have "\<forall>d \<in> set ds. d < length arts" and "ds \<noteq> [] \<longrightarrow> p < length arts"
    by auto
  from mark_cluster_total [OF this] obtain a1 where
    mc: "mark_cluster (''group_'' @ str_int l) p ds arts = Inr a1" by blast
  from mark_cluster_length [OF mc] Cons.prems
  have "\<forall>(l, idxs) \<in> set gs. idxs \<noteq> [] \<and> (\<forall>j \<in> set idxs. j < length a1)" by simp
  from Cons.IH [OF this] obtain out where "mark_clusters gs a1 = Inr out" by blast
  with mc g idxs show ?case by simp
qed

lemma cluster_groups_total:
  assumes "length labels \<le> length arts"
  shows "\<exists>out. mark_clusters (cluster_groups labels) arts = Inr out"
proof (rule mark_clusters_total, clarify)
  fix l idxs
  assume "(l, idxs) \<in> set (cluster_groups labels)"
  from cluster_groups_member [OF this] assms
  show "idxs \<noteq> [] \<and> (\<forall>j \<in> set idxs. j < length arts)"
    by (auto simp: cluster_members_set)
qed

lemma marks_record:
  assumes mk: "mark_clusters (cluster_groups labels) arts = Inr out" and i: "i < length arts"
  shows "title (out ! i) = title (arts ! i) \<and> content (out ! i) = content (arts ! i) \<and>
         (record_ok (arts ! i) \<longrightarrow> record_ok (out ! i)) \<and>
         (is_duplicate (arts ! i) \<longrightarrow> is_duplicate (out ! i))"
proof -
  from cluster_groups_marks [OF mk] i
  have "out ! i = (arts ! i)\<lparr>is_duplicate := True,
                    duplicate_group_id := Some (''group_'' @ str_int (labels ! i))\<rparr> \<or>
        out ! i = (arts ! i)\<lparr>duplicate_group_id := Some (''group_'' @ str_int (labels ! i))\<rparr> \<or>
        out ! i = arts ! i"
    by presburger
  then show ?thesis by (auto simp: record_ok_def)
qed

lemma marks_member:
  assumes mk: "mark_clusters (cluster_groups labels) arts = Inr out"
    and l: "l \<noteq> - 1" and two: "2 \<le> length (cluster_members labels l)"
    and j: "j \<in> set (cluster_members labels l)"
  shows "j < length arts \<and> hd (cluster_members labels l) \<le> j \<and>
         duplicate_group_id (out ! j) = Some (''group_'' @ str_int l) \<and>
         (is_duplicate (out ! j) \<longleftrightarrow> j \<noteq> hd (cluster_members labels l) \<or> is_duplicate (arts ! j))"
proof -
  note m = cluster_groups_marks [OF mk]
  obtain p ds where ms: "cluster_members labels l = p # ds"
    using two by (cases "cluster_members labels l") auto
  from two ms have ds: "ds \<noteq> []" by auto
  from cluster_members_distinct [of labels l] ms have pds: "p \<notin> set ds" by simp
  from cluster_members_sorted [of labels l] ms have le: "\<forall>d \<in> set ds. p \<le> d" by simp
  from j have jl: "j < length labels" and lj: "labels ! j = l" by (simp_all add: cluster_members_set)
  from ms ds have tl: "tl (cluster_members labels l) \<noteq> []" by simp
  from m l tl j have ja: "j < length arts" by blast
  from m ja have "out ! j =
      (if j < length labels \<and> labels ! j \<noteq> - 1 then
         if j \<in> set (tl (cluster_members labels (labels ! j)))
         then (arts ! j)\<lparr>is_duplicate := True,
                          duplicate_group_id := Some (''group_'' @ str_int (labels ! j))\<rparr>
         else if j = hd (cluster_members labels (labels ! j)) \<and>
                 tl (cluster_members labels (labels ! j)) \<noteq> []
         then (arts ! j)\<lparr>duplicate_group_id := Some (''group_'' @ str_int (labels ! j))\<rparr>
         else arts ! j
       else arts ! j)" by blast
  with jl lj l ms ds have e: "out ! j =
      (if j \<in> set ds
       then (arts ! j)\<lparr>is_duplicate := True, duplicate_group_id := Some (''group_'' @ str_int l)\<rparr>
       else (arts ! j)\<lparr>duplicate_group_id := Some (''group_'' @ str_int l)\<rparr>)"
    using j by auto
  from j ms have "j = p \<or> j \<in> set ds" by simp
  with e pds le ja ms show ?thesis by auto
qed

text \<open>
  C4. When the embedding model or the clusterer raises, \<open>detect_duplicates\<close> returns the
  list it was given: the same records, in the same order, none flagged, none given a
  group id, none dropped.
\<close>

theorem detect_duplicates_fails_open:
  assumes "encode (map embedding_text articles) = Inl e \<or>
           (\<exists>embeddings. encode (map embedding_text articles) = Inr embeddings \<and>
              fit_predict (1 - SIMILARITY_THRESHOLD) 2
                (distance_matrix (similarity_matrix cosine embeddings)) = Inl e)"
  shows "detect_duplicates encode cosine fit_predict articles = Inr articles"
  using assms by (auto simp: detect_duplicates_def cluster_labels_def)

theorem detect_duplicates_fails_open_witness:
  "failing_encoder (map embedding_text [example_record_1, example_record_2])
     = Inl (Exception ''model not loaded'') \<and>
   detect_duplicates failing_encoder unit_dist DBSCAN_fit_predict [example_record_1, example_record_2]
     = Inr [example_record_1, example_record_2] \<and>
   text_encoder (map embedding_text [example_record_1, example_record_2])
     = Inr (map embedding_text [example_record_1, example_record_2]) \<and>
   failing_clusterer (1 - SIMILARITY_THRESHOLD) 2
     (distance_matrix (similarity_matrix similar (map embedding_text [example_record_1, example_record_2])))
     = Inl (Exception ''Unable to allocate array'') \<and>
   detect_duplicates text_encoder similar failing_clusterer [example_record_1, example_record_2]
     = Inr [example_record_1, example_record_2] \<and>
   detect_duplicates text_encoder similar DBSCAN_fit_predict [example_record_1, example_record_2]
     \<noteq> Inr [example_record_1, example_record_2]"
proof -
  have e: "failing_encoder (map embedding_text [example_record_1, example_record_2])
             = Inl (Exception ''model not loaded'')"
    by (simp add: failing_encoder_def)
  have t: "text_encoder (map embedding_text [example_record_1, example_record_2])
             = Inr (map embedding_text [example_record_1, example_record_2])"
    by (simp add: text_encoder_def)
  have c: "failing_clusterer (1 - SIMILARITY_THRESHOLD) 2
     (distance_matrix (similarity_matrix similar (map embedding_text [example_record_1, example_record_2])))
     = Inl (Exception ''Unable to allocate array'')"
    by (simp add: failing_clusterer_def)
  have n: "detect_duplicates text_encoder similar DBSCAN_fit_predict [example_record_1, example_record_2]
     \<noteq> Inr [example_record_1, example_record_2]"
    by code_simp
  from e have 1: "detect_duplicates failing_encoder unit_dist DBSCAN_fit_predict
                    [example_record_1, example_record_2]
                  = Inr [example_record_1, example_record_2]"
    by (intro detect_duplicates_fails_open
          [of failing_encoder "[example_record_1, example_record_2]"
              "Exception ''model not loaded''" DBSCAN_fit_predict unit_dist]) blast
  from t c have 2: "detect_duplicates text_encoder similar failing_clusterer
                    [example_record_1, example_record_2]
                  = Inr [example_record_1, example_record_2]"
    by (intro detect_duplicates_fails_open
          [of text_encoder "[example_record_1, example_record_2]"
              "Exception ''Unable to allocate array''" failing_clusterer similar]) blast
  from e t c n 1 2 show ?thesis by blast
qed







text \<open>
  C2 fails on the code. With a similarity of 0.9 the two records of the end-to-end
  example form one cluster and share the group id \<open>group_0\<close>, the second one flagged as
  the duplicate. \<open>generate_highlights\<close> drops the flagged record before it groups by group
  id, so the one highlight it returns is built from the first record alone and has
  frequency 1, not 2.
\<close>

theorem generate_highlights_example_frequency:
  "similar (embedding_text example_record_1) (embedding_text example_record_2) \<ge> SIMILARITY_THRESHOLD \<and>
   cluster_labels text_encoder similar DBSCAN_fit_predict [example_record_1, example_record_2]
     = Inr [0, 0] \<and>
   detect_duplicates text_encoder similar DBSCAN_fit_predict [example_record_1, example_record_2]
     = Inr example_clustered \<and>
   map duplicate_group_id example_clustered = [Some ''group_0'', Some ''group_0''] \<and>
   map is_duplicate example_clustered = [False, True] \<and>
   generate_highlights False no_provider initial_state example_clustered ''sports''
     = Inr ([example_highlight_1], initial_state) \<and>
   hl_frequency example_highlight_1 = 1 \<and>
   hl_urls example_highlight_1 = [''https://example.org/1'']"
  by code_simp

section \<open>The clustering\<close>

lemma expand_cluster_unlabelled:
  assumes "i < length labels" and "labels ! i = - 1"
    and "push_unlabelled nbrs core i stack (labels[i := int c]) = stack'"
  shows "expand_cluster nbrs core c i stack labels =
           (case stack' of
              [] \<Rightarrow> labels[i := int c]
            | v # rest \<Rightarrow> expand_cluster nbrs core c v rest (labels[i := int c]))"
  using assms by (subst expand_cluster.simps) simp

lemma expand_cluster_labelled:
  assumes "\<not> (i < length labels \<and> labels ! i = - 1)"
  shows "expand_cluster nbrs core c i stack labels =
           (case stack of
              [] \<Rightarrow> labels
            | v # rest \<Rightarrow> expand_cluster nbrs core c v rest labels)"
  using assms by (subst expand_cluster.simps) auto

lemma expand_cluster_length:
  "length (expand_cluster nbrs core c i stack labels) = length labels"
proof (induction nbrs core c i stack labels rule: expand_cluster.induct)
  case (1 nbrs core c i stack labels)
  show ?case
  proof (cases "i < length labels \<and> labels ! i = - 1")
    case True
    then have i: "i < length labels" and li: "labels ! i = - 1" by simp_all
    show ?thesis
    proof (cases "push_unlabelled nbrs core i stack (labels[i := int c])")
      case Nil
      show ?thesis by (simp add: expand_cluster_unlabelled [OF i li Nil])
    next
      case (Cons v rest)
      from "1.IH"(1) [OF True Cons] show ?thesis
        by (simp add: expand_cluster_unlabelled [OF i li Cons])
    qed
  next
    case False
    show ?thesis
    proof (cases stack)
      case Nil
      show ?thesis by (simp add: expand_cluster_labelled [OF False] Nil)
    next
      case (Cons v rest)
      from "1.IH"(2) [OF False Cons] show ?thesis
        by (simp add: expand_cluster_labelled [OF False] Cons)
    qed
  qed
qed

lemma neighbourly_range:
  "neighbourly nbrs core n \<Longrightarrow> i < n \<Longrightarrow> v \<in> set (nbrs i) \<Longrightarrow> v < n"
  unfolding neighbourly_def by blast

lemma neighbourly_sym:
  "neighbourly nbrs core n \<Longrightarrow> i < n \<Longrightarrow> j \<in> set (nbrs i) \<Longrightarrow> i \<in> set (nbrs j)"
  unfolding neighbourly_def by blast

lemma neighbourly_core:
  "neighbourly nbrs core n \<Longrightarrow> i < n \<Longrightarrow> j \<in> set (nbrs i) \<Longrightarrow> j \<noteq> i \<Longrightarrow> core i"
  unfolding neighbourly_def by blast

lemma closed_labelsD:
  "closed_labels nbrs core c S labels \<Longrightarrow> p < length labels \<Longrightarrow> q \<in> set (nbrs p) \<Longrightarrow>
   labels ! p \<noteq> - 1 \<Longrightarrow> core p \<Longrightarrow>
   labels ! q = labels ! p \<or> (labels ! p = int c \<and> labels ! q = - 1 \<and> q \<in> S)"
  unfolding closed_labels_def by blast
lemma expand_cluster_keeps:
  "k < length labels \<Longrightarrow> labels ! k \<noteq> - 1 \<Longrightarrow>
   expand_cluster nbrs core c i stack labels ! k = labels ! k"
proof (induction nbrs core c i stack labels rule: expand_cluster.induct)
  case (1 nbrs core c i stack labels)
  show ?case
  proof (cases "i < length labels \<and> labels ! i = - 1")
    case True
    then have i: "i < length labels" and li: "labels ! i = - 1" by simp_all
    from "1.prems" li have ki: "k \<noteq> i" by auto
    show ?thesis
    proof (cases "push_unlabelled nbrs core i stack (labels[i := int c])")
      case Nil
      from ki show ?thesis by (simp add: expand_cluster_unlabelled [OF i li Nil])
    next
      case (Cons v rest)
      have "expand_cluster nbrs core c v rest (labels[i := int c]) ! k = (labels[i := int c]) ! k"
        using "1.prems" ki by (intro "1.IH"(1) [OF True Cons]) simp_all
      with ki show ?thesis by (simp add: expand_cluster_unlabelled [OF i li Cons])
    qed
  next
    case False
    show ?thesis
    proof (cases stack)
      case Nil
      show ?thesis by (simp add: expand_cluster_labelled [OF False] Nil)
    next
      case (Cons v rest)
      have "expand_cluster nbrs core c v rest labels ! k = labels ! k"
        using "1.prems" by (intro "1.IH"(2) [OF False Cons])
      then show ?thesis by (simp add: expand_cluster_labelled [OF False] Cons)
    qed
  qed
qed

lemma expand_cluster_labels_start:
  assumes i: "i < length labels" and li: "labels ! i = - 1"
  shows "expand_cluster nbrs core c i stack labels ! i = int c"
proof (cases "push_unlabelled nbrs core i stack (labels[i := int c])")
  case Nil
  from i show ?thesis by (simp add: expand_cluster_unlabelled [OF i li Nil])
next
  case (Cons v rest)
  have "expand_cluster nbrs core c v rest (labels[i := int c]) ! i = (labels[i := int c]) ! i"
    using i by (intro expand_cluster_keeps) simp_all
  with i show ?thesis by (simp add: expand_cluster_unlabelled [OF i li Cons])
qed

lemma closed_labels_skip:
  assumes nb: "neighbourly nbrs core (length labels)"
    and cl: "closed_labels nbrs core c (insert i S) labels"
    and no: "\<not> (i < length labels \<and> labels ! i = - 1)"
  shows "closed_labels nbrs core c S labels"
  unfolding closed_labels_def
proof (intro allI impI ballI)
  fix p q
  assume p: "p < length labels" and q: "q \<in> set (nbrs p)" and lp: "labels ! p \<noteq> - 1 \<and> core p"
  from neighbourly_range [OF nb p q] have qn: "q < length labels" .
  from lp have lp1: "labels ! p \<noteq> - 1" and lp2: "core p" by simp_all
  from closed_labelsD [OF cl p q lp1 lp2]
  have "labels ! q = labels ! p \<or> (labels ! p = int c \<and> labels ! q = - 1 \<and> q \<in> insert i S)" .
  with no qn show "labels ! q = labels ! p \<or> (labels ! p = int c \<and> labels ! q = - 1 \<and> q \<in> S)"
    by auto
qed

lemma closed_labels_label:
  assumes nb: "neighbourly nbrs core (length labels)"
    and cl: "closed_labels nbrs core c (insert i (set stack)) labels"
    and i: "i < length labels" and li: "labels ! i = - 1"
  shows "closed_labels nbrs core c (set (push_unlabelled nbrs core i stack (labels[i := int c])))
           (labels[i := int c])"
  unfolding closed_labels_def
proof (intro allI impI ballI)
  fix p q
  let ?l = "labels[i := int c]"
  let ?S' = "set (push_unlabelled nbrs core i stack ?l)"
  assume p': "p < length ?l" and q: "q \<in> set (nbrs p)" and lp: "?l ! p \<noteq> - 1 \<and> core p"
  from p' have p: "p < length labels" by simp
  from neighbourly_range [OF nb p q] have qn: "q < length labels" .
  have sub: "set stack \<subseteq> ?S'" by (auto simp: push_unlabelled_def)
  show "?l ! q = ?l ! p \<or> (?l ! p = int c \<and> ?l ! q = - 1 \<and> q \<in> ?S')"
  proof (cases "p = i")
    case True
    with lp have ci: "core i" by simp
    show ?thesis
    proof (cases "?l ! q = - 1")
      case unl: True
      from unl q qn ci True have "q \<in> ?S'" by (simp add: push_unlabelled_def)
      with unl True i show ?thesis by simp
    next
      case False
      show ?thesis
      proof (cases "q = i")
        case True
        with \<open>p = i\<close> show ?thesis by simp
      next
        case qi: False
        with False have lq: "labels ! q \<noteq> - 1" by simp
        from neighbourly_sym [OF nb p q] \<open>p = i\<close> have iq: "i \<in> set (nbrs q)" by simp
        from qi have "i \<noteq> q" by simp
        from neighbourly_core [OF nb qn iq this] have cq: "core q" .
        from closed_labelsD [OF cl qn iq lq cq]
        have "labels ! i = labels ! q \<or> (labels ! q = int c \<and> labels ! i = - 1 \<and> i \<in> insert i (set stack))" .
        with li lq have "labels ! q = int c" by auto
        with qi \<open>p = i\<close> i show ?thesis by simp
      qed
    qed
  next
    case False
    with lp have lp': "labels ! p \<noteq> - 1 \<and> core p" by simp
    then have lp1: "labels ! p \<noteq> - 1" and lp2: "core p" by simp_all
    from closed_labelsD [OF cl p q lp1 lp2]
    have d: "labels ! q = labels ! p \<or> (labels ! p = int c \<and> labels ! q = - 1 \<and> q \<in> insert i (set stack))" .
    show ?thesis
    proof (cases "q = i")
      case True
      with d li lp' have "labels ! p = int c" by auto
      with True False i show ?thesis by simp
    next
      case qi: False
      with d have "labels ! q = labels ! p \<or> (labels ! p = int c \<and> labels ! q = - 1 \<and> q \<in> set stack)"
        by auto
      with qi False sub show ?thesis by auto
    qed
  qed
qed

lemma expand_cluster_closed:
  "neighbourly nbrs core (length labels) \<Longrightarrow>
   closed_labels nbrs core c (insert i (set stack)) labels \<Longrightarrow>
   closed_labels nbrs core c {} (expand_cluster nbrs core c i stack labels)"
proof (induction nbrs core c i stack labels rule: expand_cluster.induct)
  case (1 nbrs core c i stack labels)
  show ?case
  proof (cases "i < length labels \<and> labels ! i = - 1")
    case True
    then have i: "i < length labels" and li: "labels ! i = - 1" by simp_all
    from closed_labels_label [OF "1.prems"(1) "1.prems"(2) i li]
    have cl: "closed_labels nbrs core c (set (push_unlabelled nbrs core i stack (labels[i := int c])))
                (labels[i := int c])" .
    show ?thesis
    proof (cases "push_unlabelled nbrs core i stack (labels[i := int c])")
      case Nil
      with cl show ?thesis by (simp add: expand_cluster_unlabelled [OF i li Nil])
    next
      case (Cons v rest)
      from cl Cons have "closed_labels nbrs core c (insert v (set rest)) (labels[i := int c])" by simp
      with "1.prems"(1)
      have "closed_labels nbrs core c {} (expand_cluster nbrs core c v rest (labels[i := int c]))"
        by (intro "1.IH"(1) [OF True Cons]) simp_all
      then show ?thesis by (simp add: expand_cluster_unlabelled [OF i li Cons])
    qed
  next
    case False
    from closed_labels_skip [OF "1.prems"(1) "1.prems"(2) False]
    have cl: "closed_labels nbrs core c (set stack) labels" .
    show ?thesis
    proof (cases stack)
      case Nil
      with cl show ?thesis by (simp add: expand_cluster_labelled [OF False])
    next
      case (Cons v rest)
      from cl Cons have "closed_labels nbrs core c (insert v (set rest)) labels" by simp
      with "1.prems"(1)
      have "closed_labels nbrs core c {} (expand_cluster nbrs core c v rest labels)"
        by (intro "1.IH"(2) [OF False Cons])
      then show ?thesis by (simp add: expand_cluster_labelled [OF False] Cons)
    qed
  qed
qed

lemma closed_labels_any:
  "closed_labels nbrs core c {} labels \<Longrightarrow> closed_labels nbrs core c' S labels"
  unfolding closed_labels_def by blast

lemma dbscan_loop_length:
  "length (dbscan_loop nbrs core is c labels) = length labels"
  by (induction "is" arbitrary: c labels) (simp_all add: expand_cluster_length)

lemma dbscan_loop_keeps:
  "k < length labels \<Longrightarrow> labels ! k \<noteq> - 1 \<Longrightarrow> dbscan_loop nbrs core is c labels ! k = labels ! k"
proof (induction "is" arbitrary: c labels)
  case Nil
  then show ?case by simp
next
  case (Cons i rest)
  show ?case
  proof (cases "labels ! i \<noteq> - 1 \<or> \<not> core i")
    case True
    with Cons show ?thesis by simp
  next
    case False
    let ?l = "expand_cluster nbrs core c i [] labels"
    have "?l ! k = labels ! k" using Cons.prems by (rule expand_cluster_keeps)
    moreover have "dbscan_loop nbrs core rest (Suc c) ?l ! k = ?l ! k"
      using Cons.prems calculation by (intro Cons.IH) (simp_all add: expand_cluster_length)
    ultimately show ?thesis using False by simp
  qed
qed

lemma dbscan_loop_closed:
  "neighbourly nbrs core (length labels) \<Longrightarrow> closed_labels nbrs core c {} labels \<Longrightarrow>
   closed_labels nbrs core c' {} (dbscan_loop nbrs core is c labels)"
proof (induction "is" arbitrary: c labels)
  case Nil
  then show ?case by (simp add: closed_labels_any)
next
  case (Cons i rest)
  show ?case
  proof (cases "labels ! i \<noteq> - 1 \<or> \<not> core i")
    case True
    with Cons show ?thesis by simp
  next
    case False
    let ?l = "expand_cluster nbrs core c i [] labels"
    from Cons.prems(2) have "closed_labels nbrs core c (insert i (set [])) labels"
      by (rule closed_labels_any)
    with Cons.prems(1) have "closed_labels nbrs core c {} ?l"
      by (rule expand_cluster_closed)
    then have "closed_labels nbrs core (Suc c) {} ?l" by (rule closed_labels_any)
    with Cons.prems(1) have "closed_labels nbrs core c' {} (dbscan_loop nbrs core rest (Suc c) ?l)"
      by (intro Cons.IH) (simp_all add: expand_cluster_length)
    with False show ?thesis by simp
  qed
qed

lemma dbscan_loop_cores:
  "i \<in> set is \<Longrightarrow> i < length labels \<Longrightarrow> core i \<Longrightarrow> dbscan_loop nbrs core is c labels ! i \<noteq> - 1"
proof (induction "is" arbitrary: c labels)
  case Nil
  then show ?case by simp
next
  case (Cons j rest)
  show ?case
  proof (cases "labels ! i \<noteq> - 1")
    case True
    with Cons.prems have "dbscan_loop nbrs core (j # rest) c labels ! i = labels ! i"
      by (intro dbscan_loop_keeps)
    with True show ?thesis by simp
  next
    case unl: False
    show ?thesis
    proof (cases "j = i")
      case True
      let ?l = "expand_cluster nbrs core c i [] labels"
      from unl Cons.prems have li: "?l ! i = int c" by (intro expand_cluster_labels_start) simp_all
      then have "?l ! i \<noteq> - 1" by simp
      with Cons.prems have "dbscan_loop nbrs core rest (Suc c) ?l ! i = ?l ! i"
        by (intro dbscan_loop_keeps) (simp_all add: expand_cluster_length)
      with li unl True Cons.prems show ?thesis by simp
    next
      case False
      with Cons.prems have ir: "i \<in> set rest" by simp
      show ?thesis
      proof (cases "labels ! j \<noteq> - 1 \<or> \<not> core j")
        case True
        with Cons.IH [OF ir Cons.prems(2,3)] show ?thesis by simp
      next
        case nt: False
        have "dbscan_loop nbrs core rest (Suc c) (expand_cluster nbrs core c j [] labels) ! i \<noteq> - 1"
          using ir Cons.prems by (intro Cons.IH) (simp_all add: expand_cluster_length)
        with nt show ?thesis by simp
      qed
    qed
  qed
qed

lemma dbscan_loop_no_core:
  "\<forall>i \<in> set is. \<not> core i \<Longrightarrow> dbscan_loop nbrs core is c labels = labels"
  by (induction "is" arbitrary: c labels) simp_all

lemma dbscan_loop_neighbours:
  assumes nb: "neighbourly nbrs core n"
    and p: "p < n" and q: "q \<in> set (nbrs p)" and pq: "q \<noteq> p"
  shows "dbscan_loop nbrs core [0..<n] 0 (replicate n (- 1)) ! p \<noteq> - 1 \<and>
         dbscan_loop nbrs core [0..<n] 0 (replicate n (- 1)) ! q
           = dbscan_loop nbrs core [0..<n] 0 (replicate n (- 1)) ! p"
proof -
  let ?l = "dbscan_loop nbrs core [0..<n] 0 (replicate n (- 1))"
  have len: "length ?l = n" by (simp add: dbscan_loop_length)
  from neighbourly_core [OF nb p q pq] have cp: "core p" .
  have lp: "?l ! p \<noteq> - 1" using p cp by (intro dbscan_loop_cores) simp_all
  have "closed_labels nbrs core 0 {} (replicate n (- 1))"
    by (simp add: closed_labels_def)
  with nb have "closed_labels nbrs core 0 {} ?l"
    by (intro dbscan_loop_closed) simp_all
  from closed_labelsD [OF this] p q lp cp len have "?l ! q = ?l ! p" by simp
  with lp show ?thesis by simp
qed

section \<open>Duplicate detection: the clusterer on the distance matrix\<close>

lemma distance_matrix_length:
  "length (distance_matrix (similarity_matrix cosine es)) = length es"
  by (simp add: distance_matrix_def similarity_matrix_def)

lemma distance_matrix_row:
  "i < length es \<Longrightarrow> length (distance_matrix (similarity_matrix cosine es) ! i) = length es"
  by (simp add: distance_matrix_def similarity_matrix_def nth_enumerate_eq)

lemma distance_matrix_nth:
  "i < length es \<Longrightarrow> j < length es \<Longrightarrow>
   distance_matrix (similarity_matrix cosine es) ! i ! j
     = (if i = j then 0 else max 0 (1 - cosine (es ! i) (es ! j)))"
  by (simp add: distance_matrix_def similarity_matrix_def nth_enumerate_eq)

lemma DBSCAN_distance_matrix:
  "DBSCAN_fit_predict eps ms (distance_matrix (similarity_matrix cosine es)) =
     Inr (dbscan_loop (neighborhood eps (distance_matrix (similarity_matrix cosine es)))
            (is_core eps ms (distance_matrix (similarity_matrix cosine es)))
            [0..<length es] 0 (replicate (length es) (- 1)))"
proof -
  let ?D = "distance_matrix (similarity_matrix cosine es)"
  have sq: "length row = length ?D" if "row \<in> set ?D" for row
  proof -
    from that obtain i where "i < length ?D" and "row = ?D ! i"
      by (auto simp: in_set_conv_nth)
    then show ?thesis by (simp add: distance_matrix_length distance_matrix_row)
  qed
  have nn: "\<not> d < 0" if "row \<in> set ?D" and "d \<in> set row" for row d
  proof -
    from that(1) obtain i where i: "i < length es" and row: "row = ?D ! i"
      by (auto simp: in_set_conv_nth distance_matrix_length)
    from that(2) row i obtain j where j: "j < length es" and d: "d = ?D ! i ! j"
      by (auto simp: in_set_conv_nth distance_matrix_row)
    from i j show ?thesis unfolding d by (simp add: distance_matrix_nth)
  qed
  from sq have 1: "\<not> (\<exists>row \<in> set ?D. length row \<noteq> length es)"
    by (simp add: distance_matrix_length)
  from nn have 2: "\<not> (\<exists>row \<in> set ?D. \<exists>d \<in> set row. d < 0)" by blast
  show ?thesis
    unfolding DBSCAN_fit_predict_def
    by (simp only: distance_matrix_length 1 2 if_False)
qed

lemma neighborhood_member:
  "j \<in> set (neighborhood eps D i) \<longleftrightarrow> j < length D \<and> D ! i ! j \<le> eps"
  by (auto simp: neighborhood_def)

lemma neighbourly_distance_matrix:
  assumes sym: "\<forall>u v. cosine u v = cosine v u" and eps: "0 \<le> eps"
  shows "neighbourly (neighborhood eps (distance_matrix (similarity_matrix cosine es)))
           (is_core eps 2 (distance_matrix (similarity_matrix cosine es))) (length es)"
proof -
  let ?D = "distance_matrix (similarity_matrix cosine es)"
  have len: "length ?D = length es" by (rule distance_matrix_length)
  have rng: "v < length es" if "v \<in> set (neighborhood eps ?D i)" for i v
    using that by (simp add: neighborhood_member len)
  have sm: "i \<in> set (neighborhood eps ?D j)"
    if i: "i < length es" and j: "j \<in> set (neighborhood eps ?D i)" for i j
  proof -
    from j have jl: "j < length es" and d: "?D ! i ! j \<le> eps"
      by (simp_all add: neighborhood_member len)
    from i jl sym have "?D ! j ! i = ?D ! i ! j" by (simp add: distance_matrix_nth)
    with d i show ?thesis by (simp add: neighborhood_member len)
  qed
  have cr: "is_core eps 2 ?D i"
    if i: "i < length es" and j: "j \<in> set (neighborhood eps ?D i)" and ji: "j \<noteq> i" for i j
  proof -
    from i eps have "i \<in> set (neighborhood eps ?D i)"
      by (simp add: neighborhood_member len distance_matrix_nth)
    with j have "{i, j} \<subseteq> set (neighborhood eps ?D i)" by simp
    then have "card {i, j} \<le> card (set (neighborhood eps ?D i))"
      by (intro card_mono) simp_all
    moreover have "card (set (neighborhood eps ?D i)) = length (neighborhood eps ?D i)"
      by (intro distinct_card) (simp add: neighborhood_def)
    moreover from ji have "card {i, j} = 2" by simp
    ultimately show ?thesis by (simp add: is_core_def)
  qed
  from rng sm cr show ?thesis unfolding neighbourly_def by blast
qed

lemma cluster_labels_DBSCAN:
  assumes enc: "\<forall>texts. encode texts = Inr (map emb texts)"
  shows "cluster_labels encode cosine DBSCAN_fit_predict arts =
     Inr (dbscan_loop
            (neighborhood (1 - SIMILARITY_THRESHOLD)
               (distance_matrix (similarity_matrix cosine (map emb (map embedding_text arts)))))
            (is_core (1 - SIMILARITY_THRESHOLD) 2
               (distance_matrix (similarity_matrix cosine (map emb (map embedding_text arts)))))
            [0..<length arts] 0 (replicate (length arts) (- 1)))"
proof -
  from enc have "encode (map embedding_text arts) = Inr (map emb (map embedding_text arts))"
    by blast
  then show ?thesis
    by (simp add: cluster_labels_def
          DBSCAN_distance_matrix [of _ _ cosine "map emb (map embedding_text arts)", simplified])
qed

lemma cluster_groups_noise:
  "\<forall>l \<in> set labels. l = - 1 \<Longrightarrow> cluster_groups labels = []"
proof (induction labels rule: rev_induct)
  case Nil
  show ?case by (simp add: cluster_groups_def)
next
  case (snoc x xs)
  then show ?case by (simp add: cluster_groups_snoc)
qed

lemma length_filter_upt_le_1:
  assumes "\<forall>b < m. P b \<longrightarrow> b = a"
  shows "length (filter P [0..<m]) \<le> 1"
proof -
  from assms have "set (filter P [0..<m]) \<subseteq> {a}" by auto
  then have "card (set (filter P [0..<m])) \<le> card {a}" by (intro card_mono) simp_all
  moreover have "card (set (filter P [0..<m])) = length (filter P [0..<m])"
    by (intro distinct_card) simp
  ultimately show ?thesis by simp
qed

text \<open>Records that are pairwise farther apart than \<open>eps\<close> are returned as they are.\<close>

lemma detect_duplicates_far:
  assumes enc: "\<forall>texts. encode texts = Inr (map emb texts)"
    and far: "\<forall>a < length ps. \<forall>b < length ps. a \<noteq> b \<longrightarrow>
                1 - SIMILARITY_THRESHOLD
                  < max 0 (1 - cosine (emb (embedding_text (ps ! a))) (emb (embedding_text (ps ! b))))"
  shows "detect_duplicates encode cosine DBSCAN_fit_predict ps = Inr ps"
proof -
  let ?eps = "1 - SIMILARITY_THRESHOLD"
  let ?es = "map emb (map embedding_text ps)"
  let ?D = "distance_matrix (similarity_matrix cosine ?es)"
  have nc: "\<not> is_core ?eps 2 ?D a" if a: "a \<in> set [0..<length ps]" for a
  proof -
    have "\<forall>b < length ps. ?D ! a ! b \<le> ?eps \<longrightarrow> b = a"
    proof (intro allI impI)
      fix b
      assume b: "b < length ps" and d: "?D ! a ! b \<le> ?eps"
      show "b = a"
      proof (rule ccontr)
        assume ne: "b \<noteq> a"
        with a b have "?D ! a ! b
            = max 0 (1 - cosine (emb (embedding_text (ps ! a))) (emb (embedding_text (ps ! b))))"
          by (simp add: distance_matrix_nth)
        moreover from far a b ne
        have "?eps < max 0 (1 - cosine (emb (embedding_text (ps ! a))) (emb (embedding_text (ps ! b))))"
          by simp
        ultimately show False using d by linarith
      qed
    qed
    from length_filter_upt_le_1 [OF this]
    have "length (neighborhood ?eps ?D a) \<le> 1"
      by (simp add: neighborhood_def distance_matrix_length)
    then show ?thesis by (simp add: is_core_def)
  qed
  then have "\<forall>a \<in> set [0..<length ps]. \<not> is_core ?eps 2 ?D a" by blast
  from dbscan_loop_no_core [OF this]
  have "dbscan_loop (neighborhood ?eps ?D) (is_core ?eps 2 ?D) [0..<length ps] 0
          (replicate (length ps) (- 1)) = replicate (length ps) (- 1)" .
  with cluster_labels_DBSCAN [OF enc, of cosine ps]
  have "cluster_labels encode cosine DBSCAN_fit_predict ps = Inr (replicate (length ps) (- 1))"
    by simp
  moreover have "cluster_groups (replicate (length ps) (- 1)) = []"
    by (rule cluster_groups_noise) simp
  ultimately show ?thesis by (simp add: detect_duplicates_def)
qed

text \<open>Two records that are within \<open>eps\<close> of each other get the same label, not noise.\<close>

lemma near_records_same_label:
  assumes sym: "\<forall>u v. cosine u v = cosine v u"
    and i: "i < length arts" and j: "j < length arts" and ij: "i \<noteq> j"
    and near: "max 0 (1 - cosine (emb (embedding_text (arts ! i))) (emb (embedding_text (arts ! j))))
                 \<le> 1 - SIMILARITY_THRESHOLD"
    and labels: "labels = dbscan_loop
            (neighborhood (1 - SIMILARITY_THRESHOLD)
               (distance_matrix (similarity_matrix cosine (map emb (map embedding_text arts)))))
            (is_core (1 - SIMILARITY_THRESHOLD) 2
               (distance_matrix (similarity_matrix cosine (map emb (map embedding_text arts)))))
            [0..<length arts] 0 (replicate (length arts) (- 1))"
  shows "labels ! i \<noteq> - 1 \<and> labels ! j = labels ! i"
proof -
  let ?eps = "1 - SIMILARITY_THRESHOLD"
  let ?es = "map emb (map embedding_text arts)"
  let ?D = "distance_matrix (similarity_matrix cosine ?es)"
  have eps: "0 \<le> ?eps" by (simp add: SIMILARITY_THRESHOLD_def)
  from neighbourly_distance_matrix [OF sym eps, of ?es]
  have nb: "neighbourly (neighborhood ?eps ?D) (is_core ?eps 2 ?D) (length arts)" by simp
  from i j ij near have "?D ! i ! j \<le> ?eps" by (simp add: distance_matrix_nth)
  with j have q: "j \<in> set (neighborhood ?eps ?D i)"
    by (simp add: neighborhood_member distance_matrix_length)
  from ij have ji: "j \<noteq> i" by simp
  from dbscan_loop_neighbours [OF nb i q ji] show ?thesis unfolding labels .
qed

lemma filter_nth_ex:
  "b < length (filter P xs) \<Longrightarrow> \<exists>j < length xs. filter P xs ! b = xs ! j"
proof -
  assume "b < length (filter P xs)"
  then have "filter P xs ! b \<in> set (filter P xs)" by (rule nth_mem)
  then have "filter P xs ! b \<in> set xs" by simp
  then show ?thesis by (auto simp: in_set_conv_nth)
qed

lemma filter_nth_pair:
  "a < b \<Longrightarrow> b < length (filter P xs) \<Longrightarrow>
   \<exists>i j. i < j \<and> j < length xs \<and> filter P xs ! a = xs ! i \<and> filter P xs ! b = xs ! j"
proof (induction xs arbitrary: a b)
  case Nil
  then show ?case by simp
next
  case (Cons x xs)
  show ?case
  proof (cases "P x")
    case False
    with Cons.prems have "b < length (filter P xs)" by simp
    from Cons.IH [OF Cons.prems(1) this] obtain i j where
      "i < j" "j < length xs" "filter P xs ! a = xs ! i" "filter P xs ! b = xs ! j" by blast
    with False have "Suc i < Suc j \<and> Suc j < length (x # xs) \<and>
        filter P (x # xs) ! a = (x # xs) ! Suc i \<and> filter P (x # xs) ! b = (x # xs) ! Suc j"
      by simp
    then show ?thesis by blast
  next
    case True
    from Cons.prems obtain b' where b: "b = Suc b'" by (cases b) auto
    with Cons.prems True have b': "b' < length (filter P xs)" by simp
    show ?thesis
    proof (cases a)
      case 0
      from filter_nth_ex [OF b'] obtain j where "j < length xs" "filter P xs ! b' = xs ! j"
        by blast
      with True 0 b have "0 < Suc j \<and> Suc j < length (x # xs) \<and>
          filter P (x # xs) ! a = (x # xs) ! 0 \<and> filter P (x # xs) ! b = (x # xs) ! Suc j"
        by simp
      then show ?thesis by blast
    next
      case (Suc a')
      with Cons.prems b have "a' < b'" by simp
      from Cons.IH [OF this b'] obtain i j where
        "i < j" "j < length xs" "filter P xs ! a' = xs ! i" "filter P xs ! b' = xs ! j" by blast
      with True Suc b have "Suc i < Suc j \<and> Suc j < length (x # xs) \<and>
          filter P (x # xs) ! a = (x # xs) ! Suc i \<and> filter P (x # xs) ! b = (x # xs) ! Suc j"
        by simp
      then show ?thesis by blast
    qed
  qed
qed

text \<open>
  After a run, two records that are not flagged are farther apart than \<open>eps\<close>: were they
  within \<open>eps\<close>, they would be in one cluster, and only its primary is left unflagged.
\<close>

lemma primaries_far:
  assumes enc: "\<forall>texts. encode texts = Inr (map emb texts)"
    and sym: "\<forall>u v. cosine u v = cosine v u"
    and first: "detect_duplicates encode cosine DBSCAN_fit_predict arts = Inr out"
    and i: "i < length arts" and j: "j < length arts" and ij: "i \<noteq> j"
    and ni: "\<not> is_duplicate (out ! i)" and nj: "\<not> is_duplicate (out ! j)"
  shows "1 - SIMILARITY_THRESHOLD
           < max 0 (1 - cosine (emb (embedding_text (out ! i))) (emb (embedding_text (out ! j))))"
proof (rule ccontr)
  assume "\<not> 1 - SIMILARITY_THRESHOLD
           < max 0 (1 - cosine (emb (embedding_text (out ! i))) (emb (embedding_text (out ! j))))"
  then have near_out:
    "max 0 (1 - cosine (emb (embedding_text (out ! i))) (emb (embedding_text (out ! j))))
       \<le> 1 - SIMILARITY_THRESHOLD" by (simp only: not_less)
  define labels where "labels = dbscan_loop
            (neighborhood (1 - SIMILARITY_THRESHOLD)
               (distance_matrix (similarity_matrix cosine (map emb (map embedding_text arts)))))
            (is_core (1 - SIMILARITY_THRESHOLD) 2
               (distance_matrix (similarity_matrix cosine (map emb (map embedding_text arts)))))
            [0..<length arts] 0 (replicate (length arts) (- 1))"
  from i j ij have two: "\<not> length arts < 2" by simp
  from cluster_labels_DBSCAN [OF enc, of cosine arts]
  have cl: "cluster_labels encode cosine DBSCAN_fit_predict arts = Inr labels"
    by (simp only: labels_def)
  from first two cl have mk: "mark_clusters (cluster_groups labels) arts = Inr out"
    by (simp add: detect_duplicates_def)
  from marks_record [OF mk i] marks_record [OF mk j]
  have et: "embedding_text (out ! i) = embedding_text (arts ! i)"
           "embedding_text (out ! j) = embedding_text (arts ! j)"
    by (simp_all add: embedding_text_def)
  from near_out have near:
    "max 0 (1 - cosine (emb (embedding_text (arts ! i))) (emb (embedding_text (arts ! j))))
       \<le> 1 - SIMILARITY_THRESHOLD" unfolding et .
  from near_records_same_label [OF sym i j ij near labels_def]
  have li: "labels ! i \<noteq> - 1" and lj: "labels ! j = labels ! i" by simp_all
  have ll: "length labels = length arts" by (simp add: labels_def dbscan_loop_length)
  from i j ll lj have mi: "i \<in> set (cluster_members labels (labels ! i))"
    and mj: "j \<in> set (cluster_members labels (labels ! i))"
    by (simp_all add: cluster_members_set)
  have two_members: "2 \<le> length (cluster_members labels (labels ! i))"
  proof -
    from mi mj have "{i, j} \<subseteq> set (cluster_members labels (labels ! i))" by simp
    then have "card {i, j} \<le> card (set (cluster_members labels (labels ! i)))"
      by (intro card_mono) simp_all
    moreover have "card (set (cluster_members labels (labels ! i)))
                     = length (cluster_members labels (labels ! i))"
      by (intro distinct_card cluster_members_distinct)
    moreover from ij have "card {i, j} = 2" by simp
    ultimately show ?thesis by simp
  qed
  from marks_member [OF mk li two_members mi] ni
  have "i = hd (cluster_members labels (labels ! i))" by blast
  moreover from marks_member [OF mk li two_members mj] nj
  have "j = hd (cluster_members labels (labels ! i))" by blast
  ultimately show False using ij by simp
qed

lemma detect_duplicates_DBSCAN_returns:
  assumes enc: "\<forall>texts. encode texts = Inr (map emb texts)"
  shows "\<exists>out. detect_duplicates encode cosine DBSCAN_fit_predict arts = Inr out \<and>
               length out = length arts"
proof (cases "length arts < 2")
  case True
  then show ?thesis by (simp add: detect_duplicates_def)
next
  case False
  define labels where "labels = dbscan_loop
            (neighborhood (1 - SIMILARITY_THRESHOLD)
               (distance_matrix (similarity_matrix cosine (map emb (map embedding_text arts)))))
            (is_core (1 - SIMILARITY_THRESHOLD) 2
               (distance_matrix (similarity_matrix cosine (map emb (map embedding_text arts)))))
            [0..<length arts] 0 (replicate (length arts) (- 1))"
  from cluster_labels_DBSCAN [OF enc, of cosine arts]
  have cl: "cluster_labels encode cosine DBSCAN_fit_predict arts = Inr labels"
    by (simp only: labels_def)
  have "length labels \<le> length arts" by (simp add: labels_def dbscan_loop_length)
  from cluster_groups_total [OF this] obtain out where
    mk: "mark_clusters (cluster_groups labels) arts = Inr out" by blast
  from cluster_groups_marks [OF mk] have "length out = length arts" by blast
  with mk cl False show ?thesis by (simp add: detect_duplicates_def)
qed

text \<open>
  C6. With an embedding model that embeds each text by itself, always in the same way,
  and a symmetric similarity, \<open>detect_duplicates\<close> with the density-based clusterer
  returns, and a second run on the records the first run has left unflagged returns them
  as they are: none is flagged, none gets a group id.
\<close>

theorem detect_duplicates_idempotent:
  assumes enc: "\<forall>texts. encode texts = Inr (map emb texts)"
    and sym: "\<forall>u v. cosine u v = cosine v u"
  shows "\<exists>out. detect_duplicates encode cosine DBSCAN_fit_predict articles = Inr out \<and>
           detect_duplicates encode cosine DBSCAN_fit_predict (filter (\<lambda>a. \<not> is_duplicate a) out)
             = Inr (filter (\<lambda>a. \<not> is_duplicate a) out)"
proof -
  from detect_duplicates_DBSCAN_returns [OF enc, of cosine articles] obtain out where
    first: "detect_duplicates encode cosine DBSCAN_fit_predict articles = Inr out"
    and len: "length out = length articles" by blast
  let ?P = "\<lambda>a. \<not> is_duplicate a"
  let ?ps = "filter ?P out"
  have pair: "1 - SIMILARITY_THRESHOLD
      < max 0 (1 - cosine (emb (embedding_text (?ps ! a))) (emb (embedding_text (?ps ! b))))"
    if ab: "a < b" and b: "b < length ?ps" for a b
  proof -
    from filter_nth_pair [OF ab b] obtain i j where
      ij: "i < j" and j: "j < length out" and pa: "?ps ! a = out ! i" and pb: "?ps ! b = out ! j"
      by blast
    from ab b have a: "a < length ?ps" by simp
    from nth_mem [OF a] have "\<not> is_duplicate (?ps ! a)" by simp
    then have na: "\<not> is_duplicate (out ! i)" unfolding pa .
    from nth_mem [OF b] have "\<not> is_duplicate (?ps ! b)" by simp
    then have nb: "\<not> is_duplicate (out ! j)" unfolding pb .
    from ij j len have i': "i < length articles" and j': "j < length articles" and ne: "i \<noteq> j"
      by simp_all
    from primaries_far [OF enc sym first i' j' ne na nb] show ?thesis unfolding pa pb .
  qed
  have far: "\<forall>a < length ?ps. \<forall>b < length ?ps. a \<noteq> b \<longrightarrow>
      1 - SIMILARITY_THRESHOLD
        < max 0 (1 - cosine (emb (embedding_text (?ps ! a))) (emb (embedding_text (?ps ! b))))"
  proof (intro allI impI)
    fix a b
    assume a: "a < length ?ps" and b: "b < length ?ps" and ne: "a \<noteq> b"
    from ne consider "a < b" | "b < a" by linarith
    then show "1 - SIMILARITY_THRESHOLD
        < max 0 (1 - cosine (emb (embedding_text (?ps ! a))) (emb (embedding_text (?ps ! b))))"
    proof cases
      case 1
      from pair [OF 1 b] show ?thesis .
    next
      case 2
      from pair [OF 2 a] sym show ?thesis by simp
    qed
  qed
  from detect_duplicates_far [OF enc far] first show ?thesis by blast
qed

lemma example_detect_3:
  "detect_duplicates text_encoder topic_similarity DBSCAN_fit_predict
     [example_record_1, example_record_2, example_record_3]
     = Inr (example_clustered @ [example_record_3])"
  by code_simp

theorem detect_duplicates_idempotent_witness:
  "(\<forall>texts. text_encoder texts = Inr (map id texts)) \<and>
   (\<forall>u v. topic_similarity u v = topic_similarity v u) \<and>
   detect_duplicates text_encoder topic_similarity DBSCAN_fit_predict
     [example_record_1, example_record_2, example_record_3]
     = Inr (example_clustered @ [example_record_3]) \<and>
   filter (\<lambda>a. \<not> is_duplicate a) (example_clustered @ [example_record_3])
     = [hd example_clustered, example_record_3] \<and>
   detect_duplicates text_encoder topic_similarity DBSCAN_fit_predict
     [hd example_clustered, example_record_3]
     = Inr [hd example_clustered, example_record_3]"
proof -
  have enc: "\<forall>texts. text_encoder texts = Inr (map id texts)" by (simp add: text_encoder_def)
  have sym: "\<forall>u v. topic_similarity u v = topic_similarity v u"
    by (auto simp: topic_similarity_def)
  have p: "filter (\<lambda>a. \<not> is_duplicate a) (example_clustered @ [example_record_3])
             = [hd example_clustered, example_record_3]"
    by code_simp
  from detect_duplicates_idempotent
         [OF enc sym, of "[example_record_1, example_record_2, example_record_3]"]
  obtain out where
    o: "detect_duplicates text_encoder topic_similarity DBSCAN_fit_predict
          [example_record_1, example_record_2, example_record_3] = Inr out" and
    s: "detect_duplicates text_encoder topic_similarity DBSCAN_fit_predict
          (filter (\<lambda>a. \<not> is_duplicate a) out) = Inr (filter (\<lambda>a. \<not> is_duplicate a) out)"
    by blast
  from o example_detect_3 have "out = example_clustered @ [example_record_3]" by simp
  with s p have "detect_duplicates text_encoder topic_similarity DBSCAN_fit_predict
     [hd example_clustered, example_record_3] = Inr [hd example_clustered, example_record_3]"
    by simp
  with enc sym example_detect_3 p show ?thesis by blast
qed

end
